theory Spec2Isabelle
  imports Complex_Main
begin

section \<open>Python values used by the program\<close>

text \<open>Exceptions are kept by their class. A ValueError that the program builds carries its
  message; the message of an exception raised by a library or by the operating system is
  left out.\<close>

datatype py_error =
    ValueError "string option"
  | IndexError
  | FileNotFoundError
  | IsADirectoryError
  | PermissionError
  | UnicodeDecodeError

text \<open>Code points below 256 for which Python's \<open>str.isspace\<close> holds; \<open>str.split()\<close>
  and \<open>str.strip()\<close> without arguments cut at exactly these.\<close>

definition whitespace :: string where
  "whitespace = [CHR 0x09, CHR 0x0A, CHR 0x0B, CHR 0x0C, CHR 0x0D, CHR 0x1C, CHR 0x1D,
                 CHR 0x1E, CHR 0x1F, CHR 0x20, CHR 0x85, CHR 0xA0]"

definition is_space :: "char \<Rightarrow> bool" where
  "is_space c = (c \<in> set whitespace)"

text \<open>\<open>text.split()\<close>: runs of whitespace separate the words, no empty word is produced.
  The first argument is the word being read.\<close>

fun split_acc :: "string \<Rightarrow> string \<Rightarrow> string list" where
  "split_acc cur [] = (if cur = [] then [] else [cur])"
| "split_acc cur (c # cs) =
     (if is_space c then (if cur = [] then split_acc [] cs else cur # split_acc [] cs)
      else split_acc (cur @ [c]) cs)"

definition py_split :: "string \<Rightarrow> string list" where
  "py_split text = split_acc [] text"

text \<open>\<open>sep.join(words)\<close>.\<close>

fun py_join :: "string \<Rightarrow> string list \<Rightarrow> string" where
  "py_join sep [] = []"
| "py_join sep [w] = w"
| "py_join sep (w # v # ws) = w @ sep @ py_join sep (v # ws)"

text \<open>\<open>int(x)\<close> on a float truncates towards zero.\<close>

definition py_int :: "real \<Rightarrow> int" where
  "py_int x = (if 0 \<le> x then \<lfloor>x\<rfloor> else \<lceil>x\<rceil>)"

text \<open>Rounding to the nearest integer, a tie to the even one: Python's \<open>round\<close> of a float,
  and the rounding of a significand.\<close>

definition round_half_even :: "real \<Rightarrow> int" where
  "round_half_even x =
     (if x - of_int \<lfloor>x\<rfloor> < 1 / 2 then \<lfloor>x\<rfloor>
      else if 1 / 2 < x - of_int \<lfloor>x\<rfloor> then \<lfloor>x\<rfloor> + 1
      else if even \<lfloor>x\<rfloor> then \<lfloor>x\<rfloor> else \<lfloor>x\<rfloor> + 1)"

text \<open>A Python float is a binary64 number, here the real it denotes. An arithmetic result is
  the exact result rounded to the nearest binary64 number, a tie to the even significand.
  \<open>binade x\<close> is the exponent \<open>e\<close> of a positive \<open>x\<close>, with \<open>2 ^ e \<le> x < 2 ^ (e + 1)\<close>, found by
  halving or doubling; it stops at \<open>-1022\<close>, the exponent of the subnormal numbers. The
  numbers of that binade are \<open>2 ^ (e - 52)\<close> apart. Overflow to infinity is outside the model:
  the product of a word count and a rate of at most 1 is far below \<open>2 ^ 1024\<close>.\<close>

definition pow2 :: "int \<Rightarrow> real" where
  "pow2 e = (if 0 \<le> e then 2 ^ nat e else 1 / 2 ^ nat (- e))"

fun binade_up :: "nat \<Rightarrow> real \<Rightarrow> int" where
  "binade_up 0 x = 0"
| "binade_up (Suc n) x = (if 2 \<le> x then 1 + binade_up n (x / 2) else 0)"

fun binade_down :: "nat \<Rightarrow> real \<Rightarrow> int" where
  "binade_down 0 x = 0"
| "binade_down (Suc n) x = (if x < 1 then binade_down n (2 * x) - 1 else 0)"

definition binade :: "real \<Rightarrow> int" where
  "binade x = (if 1 \<le> x then binade_up 1024 x else binade_down 1022 x)"

definition float_round :: "real \<Rightarrow> real" where
  "float_round x =
     (if x = 0 then 0
      else (let q = pow2 (binade \<bar>x\<bar> - 52)
            in of_int (round_half_even (x / q)) * q))"

text \<open>\<open>n * x\<close> for an integer and a float: the integer is converted to a float, then the
  floats are multiplied.\<close>

definition float_of_int :: "int \<Rightarrow> real" where
  "float_of_int n = float_round (of_int n)"

definition float_mul :: "real \<Rightarrow> real \<Rightarrow> real" where
  "float_mul x y = float_round (x * y)"

section \<open>The random module\<close>

text \<open>The state of the global generator is an infinite sequence of raw draws and a cursor.
  Seeding fixes the sequence; every theorem below holds for all sequences.\<close>

type_synonym rng = "(nat \<Rightarrow> nat) \<times> nat"

definition randbelow :: "nat \<Rightarrow> rng \<Rightarrow> nat \<times> rng" where
  "randbelow n g = (fst g (snd g) mod n, (fst g, Suc (snd g)))"

text \<open>\<open>random.randint(a, b)\<close>: an integer of the closed range, ValueError when it is empty.\<close>

definition randint :: "int \<Rightarrow> int \<Rightarrow> rng \<Rightarrow> py_error + (int \<times> rng)" where
  "randint a b g =
     (if b < a then Inl (ValueError None)
      else (let (r, g1) = randbelow (nat (b - a + 1)) g in Inr (a + int r, g1)))"

text \<open>\<open>random.choice(seq)\<close>; both calls of the program pass a non-empty literal.\<close>

definition choice :: "'a list \<Rightarrow> rng \<Rightarrow> 'a \<times> rng" where
  "choice xs g = (let (r, g1) = randbelow (length xs) g in (xs ! r, g1))"

text \<open>\<open>random.sample(population, k)\<close> by the library's pool algorithm: draw a position of
  the pool, take its element, move the last element of the pool into the hole. The library
  uses it for a population of at most 21 elements, and of more when \<open>k > 5\<close>; for a larger
  population it draws positions of the population until it has \<open>k\<close> different ones instead.
  Both ways give \<open>k\<close> different elements of the population, which is all that the general
  statements use of the sample; the populations of the evaluated examples are within the
  range of the pool algorithm.\<close>

fun sample_pool :: "nat list \<Rightarrow> nat \<Rightarrow> rng \<Rightarrow> nat list \<times> rng" where
  "sample_pool pool 0 g = ([], g)"
| "sample_pool pool (Suc k) g =
     (let (j, g1) = randbelow (length pool) g;
          x = pool ! j;
          (rest, g2) = sample_pool (butlast (pool[j := last pool])) k g1
      in (x # rest, g2))"

definition sample :: "nat list \<Rightarrow> int \<Rightarrow> rng \<Rightarrow> py_error + (nat list \<times> rng)" where
  "sample population k g =
     (if k < 0 \<or> int (length population) < k
      then Inl (ValueError None)
      else Inr (sample_pool population (nat k) g))"

section \<open>ErrorInjector\<close>

definition punctuation :: string where
  "punctuation = ''.,!?;:''"

definition lowercase :: string where
  "lowercase = ''abcdefghijklmnopqrstuvwxyz''"

text \<open>The positions drawn are never negative, so a slice \<open>word[:pos]\<close> is \<open>take\<close> and
  \<open>word[pos + 1:]\<close> is \<open>drop\<close>.\<close>

definition swap_characters :: "string \<Rightarrow> rng \<Rightarrow> py_error + (string \<times> rng)" where
  "swap_characters word g =
     (if length word < 2 then Inr (word, g)
      else case randint 0 (int (length word) - 2) g of
             Inl e \<Rightarrow> Inl e
           | Inr (pos, g1) \<Rightarrow>
               Inr (word[nat pos := word ! (nat pos + 1), nat pos + 1 := word ! nat pos], g1))"

definition delete_character :: "string \<Rightarrow> rng \<Rightarrow> py_error + (string \<times> rng)" where
  "delete_character word g =
     (if length word < 2 then Inr (word, g)
      else case randint 0 (int (length word) - 1) g of
             Inl e \<Rightarrow> Inl e
           | Inr (pos, g1) \<Rightarrow> Inr (take (nat pos) word @ drop (nat pos + 1) word, g1))"

definition insert_character :: "string \<Rightarrow> rng \<Rightarrow> py_error + (string \<times> rng)" where
  "insert_character word g =
     (case randint 0 (int (length word)) g of
        Inl e \<Rightarrow> Inl e
      | Inr (pos, g1) \<Rightarrow>
          (let (char, g2) = choice lowercase g1
           in Inr (take (nat pos) word @ [char] @ drop (nat pos) word, g2)))"

definition replace_character :: "string \<Rightarrow> rng \<Rightarrow> py_error + (string \<times> rng)" where
  "replace_character word g =
     (case randint 0 (int (length word) - 1) g of
        Inl e \<Rightarrow> Inl e
      | Inr (pos, g1) \<Rightarrow>
          (let (char, g2) = choice lowercase g1
           in Inr (take (nat pos) word @ [char] @ drop (nat pos + 1) word, g2)))"

definition corrupt_word :: "string \<Rightarrow> rng \<Rightarrow> py_error + (string \<times> rng)" where
  "corrupt_word word g =
     (if length word < 3 then Inr (word, g)
      else
        (let has_punct = (last word \<in> set punctuation);
             punct = (if has_punct then [last word] else []);
             word1 = (if has_punct then butlast word else word)
         in if length word1 < 3 then Inr (if has_punct then word1 @ punct else word1, g)
            else
              (let (error_type, g1) =
                     choice [''character_swap'', ''character_deletion'',
                             ''character_insertion'', ''character_replacement''] g
               in case (if error_type = ''character_swap'' then swap_characters word1 g1
                        else if error_type = ''character_deletion'' then delete_character word1 g1
                        else if error_type = ''character_insertion'' then insert_character word1 g1
                        else replace_character word1 g1) of
                    Inl e \<Rightarrow> Inl e
                  | Inr (corrupted, g2) \<Rightarrow>
                      Inr (if has_punct then corrupted @ punct else corrupted, g2))))"

text \<open>The loop \<open>for idx in error_indices: words[idx] = self._corrupt_word(words[idx])\<close>;
  an index outside the list raises IndexError.\<close>

fun apply_errors :: "string list \<Rightarrow> nat list \<Rightarrow> rng \<Rightarrow> py_error + (string list \<times> rng)" where
  "apply_errors words [] g = Inr (words, g)"
| "apply_errors words (idx # rest) g =
     (if length words \<le> idx then Inl IndexError
      else case corrupt_word (words ! idx) g of
             Inl e \<Rightarrow> Inl e
           | Inr (w, g1) \<Rightarrow> apply_errors (words[idx := w]) rest g1)"

definition inject_errors :: "string \<Rightarrow> real \<Rightarrow> rng \<Rightarrow> py_error + ((string \<times> nat) \<times> rng)" where
  "inject_errors text error_rate g =
     (let words = py_split text;
          total_words = length words;
          num_errors = max 1 (py_int (float_mul (float_of_int (int total_words)) error_rate))
      in case (if int total_words \<le> num_errors then Inr ([0..<total_words], g)
               else sample [0..<total_words] num_errors g) of
           Inl e \<Rightarrow> Inl e
         | Inr (error_indices, g1) \<Rightarrow>
             (case apply_errors words error_indices g1 of
                Inl e \<Rightarrow> Inl e
              | Inr (words', g2) \<Rightarrow> Inr ((py_join '' '' words', length error_indices), g2)))"

text \<open>\<open>calculate_actual_error_rate\<close>.\<close>

definition calculate_actual_error_rate :: "string \<Rightarrow> string \<Rightarrow> real" where
  "calculate_actual_error_rate original corrupted =
     (let orig_words = py_split original;
          corr_words = py_split corrupted
      in if length orig_words \<noteq> length corr_words
         then real (min (length orig_words) (length corr_words))
              / real (max (length orig_words) (length corr_words))
         else (let errors = length (filter (\<lambda>(ow, cw). ow \<noteq> cw) (zip orig_words corr_words))
               in if orig_words \<noteq> [] then real errors / real (length orig_words) else 0))"

section \<open>TestCaseGenerator\<close>

record TestCase =
  tc_id :: int
  original :: string
  corrupted :: string
  target_error_rate :: real
  actual_error_rate :: real
  word_count :: nat
  num_errors :: nat

record TestCaseGenerator =
  base_sentences :: "string list"
  seed :: int

text \<open>What \<open>open(path, 'r', encoding='utf-8')\<close> and reading the file to its end find at a
  path: no file, a directory, a file that may not be read, a file whose bytes are not UTF-8,
  or the decoded text. The path object kept by the generator is not read again and is left
  out of the record.\<close>

datatype file_state = NoFile | Directory | Unreadable | Undecodable | Text string

type_synonym files = "string \<Rightarrow> file_state"

text \<open>Reading in text mode turns \<open>\r\n\<close> and a lone \<open>\r\<close> into \<open>\n\<close>; the flag says that the
  previous character was \<open>\r\<close>.\<close>

fun universal_newlines :: "bool \<Rightarrow> string \<Rightarrow> string" where
  "universal_newlines prev_cr [] = []"
| "universal_newlines prev_cr (c # cs) =
     (if c = CHR 0x0D then CHR 0x0A # universal_newlines True cs
      else if c = CHR 0x0A then
        (if prev_cr then universal_newlines False cs else CHR 0x0A # universal_newlines False cs)
      else c # universal_newlines False cs)"

text \<open>\<open>for line in f\<close>: every line keeps its newline; a last line without one is
  yielded when it is not empty.\<close>

fun lines_acc :: "string \<Rightarrow> string \<Rightarrow> string list" where
  "lines_acc cur [] = (if cur = [] then [] else [cur])"
| "lines_acc cur (c # cs) =
     (if c = CHR 0x0A then (cur @ [c]) # lines_acc [] cs else lines_acc (cur @ [c]) cs)"

definition file_lines :: "string \<Rightarrow> string list" where
  "file_lines content = lines_acc [] (universal_newlines False content)"

definition py_strip :: "string \<Rightarrow> string" where
  "py_strip s = rev (dropWhile is_space (rev (dropWhile is_space s)))"

text \<open>\<open>sub in s\<close> for strings.\<close>

fun contains :: "string \<Rightarrow> string \<Rightarrow> bool" where
  "contains sub [] = (sub = [])"
| "contains sub (c # cs) = (take (length sub) (c # cs) = sub \<or> contains sub cs)"

text \<open>\<open>s.rindex(c)\<close>: the last position of \<open>c\<close>, ValueError when there is none.\<close>

definition rindex :: "char \<Rightarrow> string \<Rightarrow> py_error + nat" where
  "rindex c s =
     (if c \<in> set s then Inr (length s - 1 - length (takeWhile (\<lambda>x. x \<noteq> c) (rev s)))
      else Inl (ValueError None))"

fun load_lines :: "string list \<Rightarrow> py_error + string list" where
  "load_lines [] = Inr []"
| "load_lines (raw # rest) =
     (let line = py_strip raw
      in if line \<noteq> [] \<and> \<not> (take 1 line = ''#'')
         then (case (if CHR ''('' \<in> set line \<and> contains ''words)'' line
                     then (case rindex CHR ''('' line of
                             Inl e \<Rightarrow> Inl e
                           | Inr i \<Rightarrow> Inr (py_strip (take i line)))
                     else Inr line) of
                 Inl e \<Rightarrow> Inl e
               | Inr line' \<Rightarrow>
                   (case load_lines rest of
                      Inl e \<Rightarrow> Inl e
                    | Inr sentences \<Rightarrow> Inr (line' # sentences)))
         else load_lines rest)"

definition load_base_sentences :: "files \<Rightarrow> string \<Rightarrow> py_error + string list" where
  "load_base_sentences fs path =
     (case fs path of
        NoFile \<Rightarrow> Inl FileNotFoundError
      | Directory \<Rightarrow> Inl IsADirectoryError
      | Unreadable \<Rightarrow> Inl PermissionError
      | Undecodable \<Rightarrow> Inl UnicodeDecodeError
      | Text content \<Rightarrow> load_lines (file_lines content))"

text \<open>The constructor \<open>TestCaseGenerator(base_sentences_file, seed)\<close>.\<close>

definition new_TestCaseGenerator :: "files \<Rightarrow> string \<Rightarrow> int \<Rightarrow> py_error + TestCaseGenerator" where
  "new_TestCaseGenerator fs path sd =
     (case load_base_sentences fs path of
        Inl e \<Rightarrow> Inl e
      | Inr sentences \<Rightarrow> Inr \<lparr>base_sentences = sentences, seed = sd\<rparr>)"

text \<open>The inner loop of \<open>generate_test_cases\<close>, over the error rates of one sentence; it
  returns the test cases, the next id and the generator state.\<close>

fun generate_for_rates ::
  "string \<Rightarrow> real list \<Rightarrow> int \<Rightarrow> rng \<Rightarrow> py_error + (TestCase list \<times> int \<times> rng)" where
  "generate_for_rates sentence [] test_id g = Inr ([], test_id, g)"
| "generate_for_rates sentence (error_rate # rates) test_id g =
     (case inject_errors sentence error_rate g of
        Inl e \<Rightarrow> Inl e
      | Inr ((corrupted_text, n), g1) \<Rightarrow>
          (let actual_rate = calculate_actual_error_rate sentence corrupted_text;
               wc = length (py_split sentence);
               test_case = \<lparr>tc_id = test_id, original = sentence, corrupted = corrupted_text,
                            target_error_rate = error_rate, actual_error_rate = actual_rate,
                            word_count = wc, num_errors = n\<rparr>
           in case generate_for_rates sentence rates (test_id + 1) g1 of
                Inl e \<Rightarrow> Inl e
              | Inr (tcs, next_id, g2) \<Rightarrow> Inr (test_case # tcs, next_id, g2)))"

text \<open>The outer loop, over the base sentences.\<close>

fun generate_for_sentences ::
  "string list \<Rightarrow> real list \<Rightarrow> int \<Rightarrow> rng \<Rightarrow> py_error + (TestCase list \<times> int \<times> rng)" where
  "generate_for_sentences [] error_rates test_id g = Inr ([], test_id, g)"
| "generate_for_sentences (sentence # rest) error_rates test_id g =
     (case generate_for_rates sentence error_rates test_id g of
        Inl e \<Rightarrow> Inl e
      | Inr (tcs, next_id, g1) \<Rightarrow>
          (case generate_for_sentences rest error_rates next_id g1 of
             Inl e \<Rightarrow> Inl e
           | Inr (tcs', last_id, g2) \<Rightarrow> Inr (tcs @ tcs', last_id, g2)))"

definition generate_test_cases ::
  "TestCaseGenerator \<Rightarrow> real list \<Rightarrow> rng \<Rightarrow> py_error + (TestCase list \<times> rng)" where
  "generate_test_cases gen error_rates g =
     (case generate_for_sentences (base_sentences gen) error_rates 1 g of
        Inl e \<Rightarrow> Inl e
      | Inr (tcs, last_id, g') \<Rightarrow> Inr (tcs, g'))"

section \<open>TranslationPipeline\<close>

text \<open>\<open>str(n)\<close> for integers, used by the f-string of the retry error.\<close>

function str_nat :: "nat \<Rightarrow> string" where
  "str_nat n = (if n < 10 then [''0123456789'' ! n]
                else str_nat (n div 10) @ [''0123456789'' ! (n mod 10)])"
  by pat_completeness auto
termination
  by (relation "measure id") auto

definition str_int :: "int \<Rightarrow> string" where
  "str_int i = (if i < 0 then ''-'' @ str_nat (nat (- i)) else str_nat (nat i))"

text \<open>The only exception of the pipeline is the \<open>Exception(message)\<close> that \<open>_call_agent\<close>
  raises; a raised exception is \<open>Inl\<close> of its message, which is also its \<open>str\<close>. An
  interrupt, which \<open>except Exception\<close> does not catch, is left out.\<close>

text \<open>The fields of the pipeline object read by the translation methods.\<close>

record TranslationPipeline =
  model :: string
  max_retries :: int
  delay :: real
  skills :: "string \<rightharpoonup> string"

text \<open>The text-generation service is an oracle: the request with a given number (counted
  from 0 over the whole run), system prompt and user text either raises (\<open>Inl\<close> the message of
  the exception) or answers (\<open>Inr\<close> the text of the first content block). The model name, token
  limit and temperature of a request are constants of the run. The world records how many
  requests were issued and every \<open>time.sleep\<close>, in order. Console output and the wall-clock
  duration are left out.\<close>

type_synonym service = "nat \<Rightarrow> string \<Rightarrow> string \<Rightarrow> string + string"

record world =
  calls :: nat
  sleeps :: "real list"

text \<open>The body of the \<open>try\<close> of \<open>_call_agent\<close> for the request with number \<open>n\<close>: \<open>Inl\<close> the
  message of the exception caught, \<open>Inr\<close> the translation returned. The rate-limiting sleep is
  inside the \<open>try\<close>: \<open>time.sleep\<close> raises ValueError for a negative delay, which the handler
  treats as any other failure of the attempt. The loop
  \<open>for attempt in range(self.max_retries)\<close> follows; the empty string is returned when it
  runs out.\<close>

definition try_request ::
  "TranslationPipeline \<Rightarrow> service \<Rightarrow> string \<Rightarrow> string \<Rightarrow> nat \<Rightarrow> string + string" where
  "try_request p svc system_prompt input_text n =
     (case svc n system_prompt input_text of
        Inl e \<Rightarrow> Inl e
      | Inr response \<Rightarrow>
          if delay p < 0 then Inl ''sleep length must be non-negative''
          else Inr (py_strip response))"

fun call_attempts ::
  "TranslationPipeline \<Rightarrow> service \<Rightarrow> string \<Rightarrow> string \<Rightarrow> string \<Rightarrow> nat list \<Rightarrow> world
     \<Rightarrow> (string + string) \<times> world" where
  "call_attempts p svc agent_name system_prompt input_text [] w = (Inr [], w)"
| "call_attempts p svc agent_name system_prompt input_text (attempt # rest) w =
     (let w1 = w\<lparr>calls := Suc (calls w)\<rparr>;
          outcome = try_request p svc system_prompt input_text (calls w)
      in case outcome of
           Inr translation \<Rightarrow> (Inr translation, w1\<lparr>sleeps := sleeps w1 @ [delay p]\<rparr>)
         | Inl e \<Rightarrow>
             if int attempt = max_retries p - 1
             then (Inl ((''Agent '' @ agent_name @ '' failed after ''
                                   @ str_int (max_retries p) @ '' attempts: '' @ e)), w1)
             else call_attempts p svc agent_name system_prompt input_text rest
                    (w1\<lparr>sleeps := sleeps w1 @ [2 ^ attempt]\<rparr>))"

definition system_prompt_of :: "TranslationPipeline \<Rightarrow> string \<Rightarrow> string" where
  "system_prompt_of p agent_name =
     (case skills p agent_name of None \<Rightarrow> [] | Some skill_prompt \<Rightarrow> skill_prompt)
     @ [CHR 0x0A, CHR 0x0A]
     @ ''Please translate the following text according to the instructions above.''"

definition call_agent ::
  "TranslationPipeline \<Rightarrow> service \<Rightarrow> string \<Rightarrow> string \<Rightarrow> world \<Rightarrow> (string + string) \<times> world" where
  "call_agent p svc agent_name input_text w =
     call_attempts p svc agent_name (system_prompt_of p agent_name) input_text
       [0..<nat (max_retries p)] w"

text \<open>The result dictionaries. A key that one of the two dictionary literals lacks is an
  option.\<close>

record metadata =
  success :: bool
  model_name :: "string option"

record test_case_ref =
  ref_id :: int
  original_clean :: string
  ref_target_error_rate :: real
  ref_actual_error_rate :: real
  ref_word_count :: nat

record translation_result =
  test_id :: int
  result_original :: "string option"
  french :: "string option"
  hebrew :: "string option"
  final :: "string option"
  error :: "string option"
  metadata :: metadata
  test_case :: "test_case_ref option"

text \<open>\<open>process\<close>: the three stages in sequence. There is no handler in it, so an exception
  of a stage leaves \<open>process\<close>.\<close>

definition process ::
  "TranslationPipeline \<Rightarrow> service \<Rightarrow> string \<Rightarrow> int \<Rightarrow> world
     \<Rightarrow> (string + translation_result) \<times> world" where
  "process p svc english_input tid w =
     (case call_agent p svc ''agent1'' english_input w of
        (Inl e, w1) \<Rightarrow> (Inl e, w1)
      | (Inr fr, w1) \<Rightarrow>
          (case call_agent p svc ''agent2'' fr w1 of
             (Inl e, w2) \<Rightarrow> (Inl e, w2)
           | (Inr he, w2) \<Rightarrow>
               (case call_agent p svc ''agent3'' he w2 of
                  (Inl e, w3) \<Rightarrow> (Inl e, w3)
                | (Inr final_english, w3) \<Rightarrow>
                    (Inr \<lparr>test_id = tid, result_original = Some english_input,
                          french = Some fr, hebrew = Some he, final = Some final_english,
                          error = None,
                          metadata = \<lparr>success = True, model_name = Some (model p)\<rparr>,
                          test_case = None\<rparr>, w3))))"

text \<open>The body of the loop of \<open>process_batch\<close>: the handler around \<open>process\<close> turns an
  exception into a failure record. It yields the record appended to \<open>results\<close>.\<close>

definition batch_item ::
  "TranslationPipeline \<Rightarrow> service \<Rightarrow> TestCase \<Rightarrow> world \<Rightarrow> translation_result \<times> world" where
  "batch_item p svc tc w =
     (case process p svc (corrupted tc) (tc_id tc) w of
        (Inr result, w') \<Rightarrow>
          (result\<lparr>test_case := Some \<lparr>ref_id = tc_id tc, original_clean = original tc,
                                      ref_target_error_rate = target_error_rate tc,
                                      ref_actual_error_rate = actual_error_rate tc,
                                      ref_word_count = word_count tc\<rparr>\<rparr>, w')
      | (Inl e, w') \<Rightarrow>
          (\<lparr>test_id = tc_id tc, result_original = None, french = None, hebrew = None,
            final = None, error = Some e,
            metadata = \<lparr>success = False, model_name = None\<rparr>,
            test_case = None\<rparr>, w'))"

fun process_batch ::
  "TranslationPipeline \<Rightarrow> service \<Rightarrow> TestCase list \<Rightarrow> world \<Rightarrow> translation_result list \<times> world" where
  "process_batch p svc [] w = ([], w)"
| "process_batch p svc (tc # rest) w =
     (let (r, w1) = batch_item p svc tc w;
          (results, w2) = process_batch p svc rest w1
      in (r # results, w2))"

section \<open>SemanticAnalyzer\<close>

text \<open>Embeddings are arrays of floats, here lists of the reals they denote. Every operation
  of the array arithmetic rounds its exact result to the element type of the arrays; \<open>fl\<close>
  is that rounding and is left open, as the embedding model fixes the type. The type of
  \<open>1.0 - similarity\<close>, a Python float and an array scalar, depends on the promotion rules
  of the installed numpy; \<open>fl1\<close> is the rounding of that operation. A sum runs over the
  elements in order; the library may add the products in another order, which is then the
  same for \<open>np.dot(u, v)\<close> and \<open>np.dot(v, u)\<close>. A division by zero gives \<open>nan\<close> or an
  infinity, not an exception. Overflow of a finite operation is left out. The messages of
  the errors that numpy raises on arrays of different lengths are not modelled.\<close>

datatype py_float = Float real | NaN | PosInf | NegInf

record SemanticAnalyzer =
  encode :: "string \<Rightarrow> real list"
  cache :: "string \<rightharpoonup> real list"

definition get_embedding :: "SemanticAnalyzer \<Rightarrow> string \<Rightarrow> real list \<times> SemanticAnalyzer" where
  "get_embedding a txt =
     (case cache a txt of
        Some embedding \<Rightarrow> (embedding, a)
      | None \<Rightarrow> (let embedding = encode a txt
                 in (embedding, a\<lparr>cache := (cache a)(txt \<mapsto> embedding)\<rparr>)))"

text \<open>The sum of the products of two arrays, and \<open>np.dot\<close>, which needs equal lengths.\<close>

definition dot_sum :: "(real \<Rightarrow> real) \<Rightarrow> real list \<Rightarrow> real list \<Rightarrow> real" where
  "dot_sum fl u v = foldl (\<lambda>acc (x, y). fl (acc + fl (x * y))) 0 (zip u v)"

definition np_dot :: "(real \<Rightarrow> real) \<Rightarrow> real list \<Rightarrow> real list \<Rightarrow> py_error + real" where
  "np_dot fl u v =
     (if length u \<noteq> length v then Inl (ValueError None) else Inr (dot_sum fl u v))"

text \<open>\<open>np.linalg.norm\<close> of a one-dimensional array: the square root of its product with
  itself.\<close>

definition np_norm :: "(real \<Rightarrow> real) \<Rightarrow> real list \<Rightarrow> real" where
  "np_norm fl u = fl (sqrt (dot_sum fl u u))"

text \<open>\<open>u - v\<close> on arrays: elementwise, an array of length one is broadcast.\<close>

definition np_sub :: "(real \<Rightarrow> real) \<Rightarrow> real list \<Rightarrow> real list \<Rightarrow> py_error + real list" where
  "np_sub fl u v =
     (if length u = length v then Inr (map (\<lambda>(x, y). fl (x - y)) (zip u v))
      else if length u = 1 then Inr (map (\<lambda>y. fl (hd u - y)) v)
      else if length v = 1 then Inr (map (\<lambda>x. fl (x - hd v)) u)
      else Inl (ValueError None))"

text \<open>\<open>x / y\<close> and \<open>1.0 - x\<close> on float scalars.\<close>

definition float_div :: "(real \<Rightarrow> real) \<Rightarrow> real \<Rightarrow> real \<Rightarrow> py_float" where
  "float_div fl x y =
     (if y = 0 then (if x = 0 then NaN else if 0 < x then PosInf else NegInf)
      else Float (fl (x / y)))"

fun one_minus :: "(real \<Rightarrow> real) \<Rightarrow> py_float \<Rightarrow> py_float" where
  "one_minus fl (Float x) = Float (fl (1 - x))"
| "one_minus fl NaN = NaN"
| "one_minus fl PosInf = NegInf"
| "one_minus fl NegInf = PosInf"


definition calculate_cosine_distance ::
  "(real \<Rightarrow> real) \<Rightarrow> (real \<Rightarrow> real) \<Rightarrow> SemanticAnalyzer \<Rightarrow> string \<Rightarrow> string
     \<Rightarrow> (py_error + py_float) \<times> SemanticAnalyzer" where
  "calculate_cosine_distance fl fl1 a text1 text2 =
     (let (emb1, a1) = get_embedding a text1;
          (emb2, a2) = get_embedding a1 text2
      in case np_dot fl emb1 emb2 of
           Inl e \<Rightarrow> (Inl e, a2)
         | Inr d \<Rightarrow>
             (let similarity = float_div fl d (fl (np_norm fl emb1 * np_norm fl emb2));
                  distance = one_minus fl1 similarity
              in (Inr distance, a2)))"

definition calculate_euclidean_distance ::
  "(real \<Rightarrow> real) \<Rightarrow> SemanticAnalyzer \<Rightarrow> string \<Rightarrow> string
     \<Rightarrow> (py_error + py_float) \<times> SemanticAnalyzer" where
  "calculate_euclidean_distance fl a text1 text2 =
     (let (emb1, a1) = get_embedding a text1;
          (emb2, a2) = get_embedding a1 text2
      in case np_sub fl emb1 emb2 of
           Inl e \<Rightarrow> (Inl e, a2)
         | Inr diff \<Rightarrow> (Inr (Float (np_norm fl diff)), a2))"

definition calculate_distance ::
  "(real \<Rightarrow> real) \<Rightarrow> (real \<Rightarrow> real) \<Rightarrow> SemanticAnalyzer \<Rightarrow> string \<Rightarrow> string \<Rightarrow> string
     \<Rightarrow> (py_error + py_float) \<times> SemanticAnalyzer" where
  "calculate_distance fl fl1 a text1 text2 metric =
     (if metric = ''cosine'' then calculate_cosine_distance fl fl1 a text1 text2
      else if metric = ''euclidean'' then calculate_euclidean_distance fl a text1 text2
      else (Inl (ValueError (Some (''Unknown metric: '' @ metric))), a))"

section \<open>Notions used by the statements\<close>

text \<open>A word as \<open>split\<close> produces it: not empty and free of whitespace.\<close>

definition good_word :: "string \<Rightarrow> bool" where
  "good_word w = (w \<noteq> [] \<and> (\<forall>c \<in> set w. \<not> is_space c))"

text \<open>A word without its single trailing punctuation character, if it has one.\<close>

definition strip_trailing_punct :: "string \<Rightarrow> string" where
  "strip_trailing_punct w = (if w \<noteq> [] \<and> last w \<in> set punctuation then butlast w else w)"

text \<open>The embedding that the analyzer uses for a text: the cached vector if there is one,
  the vector of the model otherwise.\<close>

definition embedding_of :: "SemanticAnalyzer \<Rightarrow> string \<Rightarrow> real list" where
  "embedding_of a txt = (case cache a txt of Some embedding \<Rightarrow> embedding | None \<Rightarrow> encode a txt)"

section \<open>Concrete inputs\<close>

text \<open>A generator state whose raw draws are 3, 10, 17, ...\<close>

definition counting_rng :: rng where
  "counting_rng = ((\<lambda>i. 7 * i + 3), 0)"

text \<open>The binary64 number nearest to 0.6, which is what the literal \<open>0.6\<close> denotes.\<close>

definition double_0_6 :: real where
  "double_0_6 = 5404319552844595 / 9007199254740992"

text \<open>The binary64 number nearest to 0.58, and a text of fifty words.\<close>

definition double_0_58 :: real where
  "double_0_58 = 5224175567749775 / 9007199254740992"

definition fifty_words :: string where
  "fifty_words = py_join '' '' (replicate 50 ''word'')"

text \<open>A file system without files.\<close>

definition no_files :: files where
  "no_files path = NoFile"

text \<open>A sentence of words too short to be corrupted, and the test case generated from it
  at rate 1.\<close>

definition short_words_generator :: TestCaseGenerator where
  "short_words_generator =
     \<lparr>base_sentences = [''go to it''], seed = 42\<rparr>"

definition short_words_case :: TestCase where
  "short_words_case =
     \<lparr>tc_id = 1, original = ''go to it'', corrupted = ''go to it'', target_error_rate = 1,
      actual_error_rate = 0, word_count = 3, num_errors = 3\<rparr>"

text \<open>A pipeline with three attempts per stage and a delay of one second; a service that
  always raises, one that raises on its first two requests, and one that raises on one input
  text only.\<close>

definition example_pipeline :: TranslationPipeline where
  "example_pipeline =
     \<lparr>model = ''claude-3-5-sonnet-20241022'', max_retries = 3, delay = 1,
      skills = [''agent1'' \<mapsto> ''Translate'']\<rparr>"

definition initial_world :: world where
  "initial_world = \<lparr>calls = 0, sleeps = []\<rparr>"

definition failing_service :: service where
  "failing_service n system_prompt input_text = Inl ''Persistent API Error''"

definition flaky_service :: service where
  "flaky_service n system_prompt input_text = (if n < 2 then Inl ''API Error'' else Inr ''Success'')"

definition selective_service :: service where
  "selective_service n system_prompt input_text =
     (if input_text = ''Txt two'' then Inl ''API Error'' else Inr ''Translation'')"

definition example_batch :: "TestCase list" where
  "example_batch =
     [\<lparr>tc_id = 0, original = ''Text one'', corrupted = ''Txt one'', target_error_rate = 1 / 4,
       actual_error_rate = 1 / 4, word_count = 2, num_errors = 1\<rparr>,
      \<lparr>tc_id = 1, original = ''Text two'', corrupted = ''Txt two'', target_error_rate = 1 / 2,
       actual_error_rate = 1 / 2, word_count = 2, num_errors = 1\<rparr>,
      \<lparr>tc_id = 2, original = ''Text three'', corrupted = ''Txt three'', target_error_rate = 1 / 2,
       actual_error_rate = 1 / 2, word_count = 2, num_errors = 1\<rparr>]"

text \<open>An analyzer with an empty cache whose model gives the empty text the zero vector, the
  text \<open>a\<close> the first unit vector and every other text the second.\<close>

definition example_analyzer :: SemanticAnalyzer where
  "example_analyzer =
     \<lparr>encode = (\<lambda>t. if t = [] then [0, 0] else if t = ''a'' then [1, 0] else [0, 1]),
      cache = Map.empty\<rparr>"

section \<open>Rounding to binary64\<close>

lemma pow2_powr: "pow2 e = 2 powr (real_of_int e)"
proof (cases "0 \<le> e")
  case True
  then show ?thesis by (simp add: pow2_def powr_real_of_int)
next
  case False
  then show ?thesis by (simp add: pow2_def powr_real_of_int field_simps)
qed

lemma pow2_pos: "0 < pow2 e"
  by (simp add: pow2_powr)

lemma pow2_Suc: "pow2 (e + 1) = 2 * pow2 e"
  by (simp add: pow2_powr powr_add)

lemma pow2_0: "pow2 0 = 1"
  by (simp add: pow2_def)

lemma pow2_mono: "a \<le> b \<Longrightarrow> pow2 a \<le> pow2 b"
  by (simp add: pow2_powr)

lemma binade_up_eq:
  "pow2 j \<le> x \<Longrightarrow> x < pow2 (j + 1) \<Longrightarrow> 0 \<le> j \<Longrightarrow> nat j \<le> n \<Longrightarrow> binade_up n x = j"
proof (induction n arbitrary: x j)
  case 0
  then show ?case by simp
next
  case (Suc n)
  show ?case
  proof (cases "j = 0")
    case True
    then have "x < 2" using Suc.prems(2) pow2_Suc [of 0] by (simp add: pow2_0)
    then show ?thesis using True by simp
  next
    case False
    then have j: "1 \<le> j" using Suc.prems(3) by simp
    have "pow2 1 \<le> pow2 j" using j by (rule pow2_mono)
    then have x2: "2 \<le> x" using Suc.prems(1) pow2_Suc [of 0] by (simp add: pow2_0)
    have "pow2 (j - 1) \<le> x / 2" "x / 2 < pow2 (j - 1 + 1)"
      using Suc.prems(1,2) pow2_Suc [of "j - 1"] pow2_Suc [of j] by simp_all
    moreover have "0 \<le> j - 1" "nat (j - 1) \<le> n" using j Suc.prems(4) by simp_all
    ultimately have "binade_up n (x / 2) = j - 1" by (rule Suc.IH)
    then show ?thesis using x2 by simp
  qed
qed

lemma binade_down_eq:
  "pow2 (- j) \<le> x \<Longrightarrow> x < pow2 (- j + 1) \<Longrightarrow> 0 \<le> j \<Longrightarrow> nat j \<le> n \<Longrightarrow> binade_down n x = - j"
proof (induction n arbitrary: x j)
  case 0
  then show ?case by simp
next
  case (Suc n)
  show ?case
  proof (cases "j = 0")
    case True
    then have "1 \<le> x" using Suc.prems(1) by (simp add: pow2_0)
    then show ?thesis using True by simp
  next
    case False
    then have j: "1 \<le> j" using Suc.prems(3) by simp
    have "pow2 (- j + 1) \<le> pow2 0" using j by (intro pow2_mono) simp
    then have x1: "x < 1" using Suc.prems(2) by (simp add: pow2_0)
    have "pow2 (- (j - 1)) \<le> 2 * x" "2 * x < pow2 (- (j - 1) + 1)"
      using Suc.prems(1,2) pow2_Suc [of "- j"] pow2_Suc [of "- j + 1"]
      by (simp_all add: algebra_simps)
    moreover have "0 \<le> j - 1" "nat (j - 1) \<le> n" using j Suc.prems(4) by simp_all
    ultimately have "binade_down n (2 * x) = - (j - 1)" by (rule Suc.IH)
    then show ?thesis using x1 by simp
  qed
qed

lemma binade_down_small:
  "0 < x \<Longrightarrow> x < pow2 (- int n) \<Longrightarrow> binade_down n x = - int n"
proof (induction n arbitrary: x)
  case 0
  then show ?case by simp
next
  case (Suc n)
  have "pow2 (- int (Suc n)) \<le> pow2 0" by (intro pow2_mono) simp
  then have x1: "x < 1" using Suc.prems(2) by (simp add: pow2_0)
  have "2 * x < pow2 (- int n)"
    using Suc.prems(2) pow2_Suc [of "- int (Suc n)"] by (simp add: algebra_simps)
  with Suc.prems(1) have "binade_down n (2 * x) = - int n" by (intro Suc.IH) simp_all
  then show ?case using x1 by simp
qed

lemma binade_eq:
  assumes "pow2 e \<le> x" "x < pow2 (e + 1)" "- 1022 \<le> e" "e \<le> 1024"
  shows "binade x = e"
proof (cases "0 \<le> e")
  case True
  then have "pow2 0 \<le> pow2 e" by (intro pow2_mono)
  then have "1 \<le> x" using assms(1) by (simp add: pow2_0)
  moreover have "binade_up 1024 x = e"
    using assms(1,2) True assms(4) by (intro binade_up_eq) simp_all
  ultimately show ?thesis by (simp add: binade_def)
next
  case False
  then have "pow2 (e + 1) \<le> pow2 0" by (intro pow2_mono) simp
  then have "\<not> 1 \<le> x" using assms(2) by (simp add: pow2_0)
  moreover have "binade_down 1022 x = - (- e)"
    using assms(1,2,3) False by (intro binade_down_eq) simp_all
  ultimately show ?thesis by (simp add: binade_def)
qed

lemma binade_log:
  assumes "0 < x" "x < pow2 1025"
  shows "binade x = max \<lfloor>log 2 x\<rfloor> (- 1022)"
proof (cases "pow2 (- 1022) \<le> x")
  case True
  define e where "e = \<lfloor>log 2 x\<rfloor>"
  have bounds: "pow2 e \<le> x" "x < pow2 (e + 1)"
    using floor_log_eq_powr_iff [of x 2 e] assms(1) by (simp_all add: e_def pow2_powr)
  have lo: "- 1022 \<le> e"
  proof (rule ccontr)
    assume "\<not> - 1022 \<le> e"
    then have "pow2 (e + 1) \<le> pow2 (- 1022)" by (intro pow2_mono) simp
    then show False using True bounds(2) by simp
  qed
  have hi: "e \<le> 1024"
  proof (rule ccontr)
    assume "\<not> e \<le> 1024"
    then have "pow2 1025 \<le> pow2 e" by (intro pow2_mono) simp
    then show False using assms(2) bounds(1) by simp
  qed
  show ?thesis using binade_eq [OF bounds lo hi] lo by (simp add: e_def)
next
  case False
  then have small: "x < pow2 (- int 1022)" by simp
  then have "binade_down 1022 x = - int 1022" using assms(1) by (intro binade_down_small)
  moreover have "\<not> 1 \<le> x"
  proof -
    have "pow2 (- int 1022) \<le> pow2 0" by (intro pow2_mono) simp
    then show ?thesis using small by (simp add: pow2_0)
  qed
  moreover have "\<lfloor>log 2 x\<rfloor> \<le> - 1022"
  proof (rule ccontr)
    assume "\<not> \<lfloor>log 2 x\<rfloor> \<le> - 1022"
    then have "pow2 (- 1022) \<le> pow2 \<lfloor>log 2 x\<rfloor>" by (intro pow2_mono) simp
    moreover have "pow2 \<lfloor>log 2 x\<rfloor> \<le> x"
      using floor_log_eq_powr_iff [of x 2 "\<lfloor>log 2 x\<rfloor>"] assms(1) by (simp add: pow2_powr)
    ultimately show False using False by simp
  qed
  ultimately show ?thesis by (simp add: binade_def)
qed

lemma float_round_in_binade:
  assumes "pow2 e \<le> \<bar>x\<bar>" "\<bar>x\<bar> < pow2 (e + 1)" "- 1022 \<le> e" "e \<le> 1024"
  shows "float_round x = of_int (round_half_even (x / pow2 (e - 52))) * pow2 (e - 52)"
proof -
  have "x \<noteq> 0" using assms(1) pow2_pos [of e] by auto
  then show ?thesis using binade_eq [OF assms]
    by (simp add: float_round_def Let_def)
qed



lemma round_half_even_of_int: "round_half_even (of_int k) = k"
  by (simp add: round_half_even_def)

lemma float_round_int_exact:
  assumes "0 < k" "k < 2 ^ 53"
  shows "float_round (of_int k) = of_int k"
proof -
  define x :: real where "x = of_int k"
  define e where "e = \<lfloor>log 2 x\<rfloor>"
  have x1: "1 \<le> x" and x53: "x < 2 ^ 53" using assms by (simp_all add: x_def)
  have bounds: "pow2 e \<le> x" "x < pow2 (e + 1)"
    using floor_log_eq_powr_iff [of x 2 e] x1 by (simp_all add: e_def pow2_powr)
  have lo: "0 \<le> e"
  proof (rule ccontr)
    assume "\<not> 0 \<le> e"
    then have "pow2 (e + 1) \<le> pow2 0" by (intro pow2_mono) simp
    then show False using bounds(2) x1 by (simp add: pow2_0)
  qed
  have hi: "e \<le> 52"
  proof (rule ccontr)
    assume "\<not> e \<le> 52"
    then have "pow2 53 \<le> pow2 e" by (intro pow2_mono) simp
    then show False using bounds(1) x53 by (simp add: pow2_def)
  qed
  have q: "pow2 (e - 52) = 1 / 2 ^ nat (52 - e)"
  proof (cases "e = 52")
    case True
    then show ?thesis by (simp add: pow2_def)
  next
    case False
    then have "e - 52 < 0" using hi by simp
    then show ?thesis by (simp add: pow2_def)
  qed
  have "x / pow2 (e - 52) = of_int (k * 2 ^ nat (52 - e))"
    by (simp add: q x_def)
  then have "round_half_even (x / pow2 (e - 52)) = k * 2 ^ nat (52 - e)"
    by (simp only: round_half_even_of_int)
  moreover have "float_round x
      = of_int (round_half_even (x / pow2 (e - 52))) * pow2 (e - 52)"
    using bounds lo hi x1 by (intro float_round_in_binade) simp_all
  ultimately show ?thesis by (simp add: q x_def)
qed

lemma float_of_int_exact: "0 \<le> k \<Longrightarrow> k < 2 ^ 53 \<Longrightarrow> float_of_int k = of_int k"
  using float_round_int_exact [of k] by (cases "k = 0") (simp_all add: float_of_int_def float_round_def)

section \<open>Splitting and joining words\<close>

lemma split_acc_nospace:
  "\<forall>c \<in> set w. \<not> is_space c \<Longrightarrow> split_acc cur (w @ rest) = split_acc (cur @ w) rest"
  by (induction w arbitrary: cur) auto

lemma space_is_space: "is_space CHR '' ''"
  by (simp add: is_space_def whitespace_def)

lemma split_acc_good_word:
  "good_word w \<Longrightarrow> split_acc [] (w @ '' '' @ rest) = w # split_acc [] rest"
  using split_acc_nospace [of w "[]" "'' '' @ rest"]
  by (simp add: good_word_def space_is_space)

lemma split_join:
  "\<forall>w \<in> set ws. good_word w \<Longrightarrow> py_split (py_join '' '' ws) = ws"
proof (induction "'' ''" ws rule: py_join.induct)
  case 1
  then show ?case by (simp add: py_split_def)
next
  case (2 w)
  then have "split_acc [] (w @ []) = split_acc ([] @ w) []"
    by (intro split_acc_nospace) (simp add: good_word_def)
  with 2 show ?case by (simp add: py_split_def good_word_def)
next
  case (3 w v ws)
  then show ?case
    using split_acc_good_word [of w "py_join '' '' (v # ws)"]
    by (simp add: py_split_def)
qed

lemma split_acc_good:
  "\<forall>c \<in> set cur. \<not> is_space c \<Longrightarrow> \<forall>w \<in> set (split_acc cur s). good_word w"
proof (induction s arbitrary: cur)
  case Nil
  then show ?case by (simp add: good_word_def)
next
  case (Cons a s)
  have empty: "\<forall>w \<in> set (split_acc [] s). good_word w"
    by (rule Cons.IH) simp
  show ?case
  proof (cases "is_space a")
    case True
    then show ?thesis using empty Cons.prems by (simp add: good_word_def)
  next
    case False
    then have "\<forall>c \<in> set (cur @ [a]). \<not> is_space c" using Cons.prems by simp
    then have "\<forall>w \<in> set (split_acc (cur @ [a]) s). good_word w" by (rule Cons.IH)
    then show ?thesis using False by simp
  qed
qed

lemma py_split_good: "\<forall>w \<in> set (py_split s). good_word w"
  unfolding py_split_def by (rule split_acc_good) simp

lemma lowercase_all_not_space: "\<forall>c \<in> set lowercase. \<not> is_space c"
  by (simp add: lowercase_def is_space_def whitespace_def)

lemma lowercase_not_space: "c \<in> set lowercase \<Longrightarrow> \<not> is_space c"
  using lowercase_all_not_space by blast

lemma choice_mem: "xs \<noteq> [] \<Longrightarrow> fst (choice xs g) \<in> set xs"
  by (simp add: choice_def randbelow_def split_def)

lemma randint_ok:
  assumes "0 \<le> b"
  shows "\<exists>pos g1. randint 0 b g = Inr (pos, g1) \<and> 0 \<le> pos \<and> pos \<le> b"
proof -
  have "0 < nat (b + 1)" using assms by simp
  then have "fst g (snd g) mod nat (b + 1) < nat (b + 1)" by (rule mod_less_divisor)
  then have "int (fst g (snd g) mod nat (b + 1)) \<le> b" using assms by linarith
  then show ?thesis using assms by (simp add: randint_def randbelow_def)
qed

section \<open>Corrupting one word\<close>

lemma length_pos_ne: "0 < length xs \<Longrightarrow> xs \<noteq> []"
  by auto

lemma swap_characters_good:
  assumes "good_word w" "3 \<le> length w"
  shows "\<exists>w' g'. swap_characters w g = Inr (w', g') \<and> good_word w'"
proof -
  have "0 \<le> int (length w) - 2" using assms(2) by linarith
  from randint_ok [OF this, of g]
  obtain pos g1 where r: "randint 0 (int (length w) - 2) g = Inr (pos, g1)"
    and pos: "0 \<le> pos" "pos \<le> int (length w) - 2"
    by blast
  let ?w' = "w[nat pos := w ! (nat pos + 1), nat pos + 1 := w ! nat pos]"
  have "nat pos < length w" "nat pos + 1 < length w" using pos by linarith+
  then have "set ?w' \<subseteq> set w"
    by (intro set_update_subsetI) simp_all
  moreover have "?w' \<noteq> []" using assms(2) by auto
  ultimately have "good_word ?w'" using assms(1) by (auto simp: good_word_def)
  then show ?thesis using r assms(2) by (simp add: swap_characters_def)
qed

lemma delete_character_good:
  assumes "good_word w" "3 \<le> length w"
  shows "\<exists>w' g'. delete_character w g = Inr (w', g') \<and> good_word w'"
proof -
  have "0 \<le> int (length w) - 1" using assms(2) by linarith
  from randint_ok [OF this, of g]
  obtain pos g1 where r: "randint 0 (int (length w) - 1) g = Inr (pos, g1)"
    and pos: "0 \<le> pos" "pos \<le> int (length w) - 1"
    by blast
  let ?w' = "take (nat pos) w @ drop (nat pos + 1) w"
  have "set ?w' \<subseteq> set w"
    using set_take_subset [of "nat pos" w] set_drop_subset [of "nat pos + 1" w] by auto
  moreover have "length ?w' = length w - 1" using pos by auto
  then have "0 < length ?w'" using assms(2) by linarith
  then have "?w' \<noteq> []" by (rule length_pos_ne)
  ultimately have "good_word ?w'" using assms(1) by (auto simp: good_word_def)
  then show ?thesis using r assms(2) by (simp add: delete_character_def)
qed

lemma insert_character_good:
  assumes "good_word w"
  shows "\<exists>w' g'. insert_character w g = Inr (w', g') \<and> good_word w'"
proof -
  obtain pos g1 where r: "randint 0 (int (length w)) g = Inr (pos, g1)"
    using randint_ok [of "int (length w)" g] by auto
  obtain ch g2 where c: "choice lowercase g1 = (ch, g2)" by (cases "choice lowercase g1")
  have "ch \<in> set lowercase" using choice_mem [of lowercase g1] c by (simp add: lowercase_def)
  then have ch: "\<not> is_space ch" by (rule lowercase_not_space)
  let ?w' = "take (nat pos) w @ [ch] @ drop (nat pos) w"
  have "set ?w' \<subseteq> insert ch (set w)"
    using set_take_subset [of "nat pos" w] set_drop_subset [of "nat pos" w] by auto
  then have "good_word ?w'" using assms ch by (auto simp: good_word_def)
  then show ?thesis using r c by (simp add: insert_character_def)
qed

lemma replace_character_good:
  assumes "good_word w"
  shows "\<exists>w' g'. replace_character w g = Inr (w', g') \<and> good_word w'"
proof -
  have "1 \<le> length w" using assms by (cases w) (auto simp: good_word_def)
  then have "0 \<le> int (length w) - 1" by linarith
  from randint_ok [OF this, of g]
  obtain pos g1 where r: "randint 0 (int (length w) - 1) g = Inr (pos, g1)"
    by blast
  obtain ch g2 where c: "choice lowercase g1 = (ch, g2)" by (cases "choice lowercase g1")
  have "ch \<in> set lowercase" using choice_mem [of lowercase g1] c by (simp add: lowercase_def)
  then have ch: "\<not> is_space ch" by (rule lowercase_not_space)
  let ?w' = "take (nat pos) w @ [ch] @ drop (nat pos + 1) w"
  have "set ?w' \<subseteq> insert ch (set w)"
    using set_take_subset [of "nat pos" w] set_drop_subset [of "nat pos + 1" w] by auto
  then have "good_word ?w'" using assms ch by (auto simp: good_word_def)
  then show ?thesis using r c by (simp add: replace_character_def)
qed

lemma good_word_butlast:
  assumes "good_word w" "3 \<le> length (butlast w)"
  shows "good_word (butlast w)"
proof -
  have "0 < length (butlast w)" using assms(2) by linarith
  then have "butlast w \<noteq> []" by (rule length_pos_ne)
  moreover have "\<forall>c \<in> set (butlast w). \<not> is_space c"
    using assms(1) by (auto simp: good_word_def dest: in_set_butlastD)
  ultimately show ?thesis by (simp add: good_word_def)
qed

lemma good_word_snoc: "good_word v \<Longrightarrow> good_word w \<Longrightarrow> good_word (v @ [last w])"
  by (auto simp: good_word_def)

lemma corrupt_word_good:
  assumes "good_word w"
  shows "\<exists>w' g'. corrupt_word w g = Inr (w', g') \<and> good_word w'"
proof (cases "length w < 3")
  case True
  then show ?thesis using assms by (simp add: corrupt_word_def)
next
  case long: False
  define w1 where "w1 = (if last w \<in> set punctuation then butlast w else w)"
  show ?thesis
  proof (cases "length w1 < 3")
    case True
    have "w \<noteq> []" using assms by (simp add: good_word_def)
    then have "butlast w @ [last w] = w" by simp
    then show ?thesis using long True assms
      by (simp add: corrupt_word_def w1_def Let_def)
  next
    case False
    have gw1: "good_word w1" using assms False by (auto simp: w1_def good_word_butlast)
    obtain et g1 where c: "choice [''character_swap'', ''character_deletion'',
                             ''character_insertion'', ''character_replacement''] g = (et, g1)"
      by (cases "choice [''character_swap'', ''character_deletion'',
                             ''character_insertion'', ''character_replacement''] g")
    define r where "r = (if et = ''character_swap'' then swap_characters w1 g1
                        else if et = ''character_deletion'' then delete_character w1 g1
                        else if et = ''character_insertion'' then insert_character w1 g1
                        else replace_character w1 g1)"
    have "\<exists>w' g'. r = Inr (w', g') \<and> good_word w'"
      unfolding r_def
      using swap_characters_good [OF gw1, of g1] delete_character_good [OF gw1, of g1]
        insert_character_good [OF gw1, of g1] replace_character_good [OF gw1, of g1] False
      by auto
    then obtain w' g' where r: "r = Inr (w', g')" and gw': "good_word w'" by blast
    have "good_word (w' @ [last w])" using gw' assms by (rule good_word_snoc)
    then have "good_word (if last w \<in> set punctuation
                          then w' @ (if last w \<in> set punctuation then [last w] else [])
                          else w')"
      using gw' by simp
    then show ?thesis using long False [unfolded w1_def] c r [unfolded r_def w1_def]
      by (simp add: corrupt_word_def Let_def split del: if_split)
  qed
qed

lemma corrupt_word_short:
  assumes "length (strip_trailing_punct w) < 3"
  shows "corrupt_word w g = Inr (w, g)"
proof (cases "length w < 3")
  case True
  then show ?thesis by (simp add: corrupt_word_def)
next
  case False
  then have ne: "w \<noteq> []" by auto
  then have "butlast w @ [last w] = w" by simp
  then show ?thesis using assms False ne
    by (auto simp: corrupt_word_def strip_trailing_punct_def Let_def split: if_splits)
qed

section \<open>Injecting errors into a sentence\<close>

lemma apply_errors_ok:
  assumes "\<forall>w \<in> set ws. good_word w" "\<forall>i \<in> set idxs. i < length ws"
  shows "\<exists>ws' g'. apply_errors ws idxs g = Inr (ws', g') \<and> length ws' = length ws \<and>
           (\<forall>w \<in> set ws'. good_word w) \<and>
           (\<forall>i < length ws. i \<notin> set idxs \<longrightarrow> ws' ! i = ws ! i) \<and>
           (\<forall>i < length ws. length (strip_trailing_punct (ws ! i)) < 3 \<longrightarrow> ws' ! i = ws ! i)"
  using assms
proof (induction idxs arbitrary: ws g)
  case Nil
  then show ?case by simp
next
  case (Cons idx rest)
  have idx: "idx < length ws" using Cons.prems(2) by simp
  then have "good_word (ws ! idx)" using Cons.prems(1) by simp
  from corrupt_word_good [OF this, of g]
  obtain w g1 where cw: "corrupt_word (ws ! idx) g = Inr (w, g1)" and gw: "good_word w"
    by blast
  let ?ws1 = "ws[idx := w]"
  have good1: "\<forall>v \<in> set ?ws1. good_word v"
    using Cons.prems(1) gw set_update_subset_insert [of ws idx w] by auto
  have rest1: "\<forall>i \<in> set rest. i < length ?ws1" using Cons.prems(2) by simp
  from Cons.IH [OF good1 rest1, of g1]
  obtain ws' g' where res: "apply_errors ?ws1 rest g1 = Inr (ws', g')"
    and len: "length ws' = length ?ws1"
    and good': "\<forall>v \<in> set ws'. good_word v"
    and keep: "\<forall>i < length ?ws1. i \<notin> set rest \<longrightarrow> ws' ! i = ?ws1 ! i"
    and short: "\<forall>i < length ?ws1. length (strip_trailing_punct (?ws1 ! i)) < 3 \<longrightarrow> ws' ! i = ?ws1 ! i"
    by blast
  have eq: "apply_errors ws (idx # rest) g = Inr (ws', g')"
    using idx cw res by simp
  have keep': "\<forall>i < length ws. i \<notin> set (idx # rest) \<longrightarrow> ws' ! i = ws ! i"
    using keep by simp
  have short': "\<forall>i < length ws. length (strip_trailing_punct (ws ! i)) < 3 \<longrightarrow> ws' ! i = ws ! i"
  proof (intro allI impI)
    fix i assume i: "i < length ws" and s: "length (strip_trailing_punct (ws ! i)) < 3"
    have same: "?ws1 ! i = ws ! i"
    proof (cases "i = idx")
      case True
      then have "corrupt_word (ws ! idx) g = Inr (ws ! idx, g)" using s by (simp add: corrupt_word_short)
      then have "w = ws ! idx" using cw by simp
      then show ?thesis using True by simp
    next
      case False
      then show ?thesis by simp
    qed
    then have "ws' ! i = ?ws1 ! i" using short i s by simp
    then show "ws' ! i = ws ! i" using same by simp
  qed
  show ?case using eq len good' keep' short' by simp
qed

lemma sample_pool_length: "length (fst (sample_pool pool k g)) = k"
  by (induction k arbitrary: pool g) (simp_all add: split_def Let_def)

lemma sample_pool_subset:
  "k \<le> length pool \<Longrightarrow> set (fst (sample_pool pool k g)) \<subseteq> set pool"
proof (induction k arbitrary: pool g)
  case 0
  then show ?case by simp
next
  case (Suc k)
  then have ne: "pool \<noteq> []" by auto
  let ?j = "fst (randbelow (length pool) g)"
  let ?g1 = "snd (randbelow (length pool) g)"
  let ?pool' = "butlast (pool[?j := last pool])"
  have j: "?j < length pool" using ne by (simp add: randbelow_def)
  have "set ?pool' \<subseteq> set (pool[?j := last pool])" by (meson in_set_butlastD subsetI)
  also have "\<dots> \<subseteq> insert (last pool) (set pool)" by (rule set_update_subset_insert)
  also have "\<dots> = set pool" using ne by auto
  finally have sub: "set ?pool' \<subseteq> set pool" .
  have "k \<le> length ?pool'" using Suc.prems by simp
  then have "set (fst (sample_pool ?pool' k ?g1)) \<subseteq> set ?pool'" by (rule Suc.IH)
  then show ?case using sub j by (simp add: split_def Let_def)
qed

lemma diff_count_le:
  assumes "length ws' = length ws" "\<forall>i < length ws. i \<notin> set idxs \<longrightarrow> ws' ! i = ws ! i"
  shows "length (filter (\<lambda>(ow, cw). ow \<noteq> cw) (zip ws ws')) \<le> length idxs"
proof -
  have "{i. i < length (zip ws ws') \<and> (\<lambda>(ow, cw). ow \<noteq> cw) (zip ws ws' ! i)} \<subseteq> set idxs"
    using assms by auto
  then have "card {i. i < length (zip ws ws') \<and> (\<lambda>(ow, cw). ow \<noteq> cw) (zip ws ws' ! i)}
               \<le> card (set idxs)"
    by (intro card_mono) simp_all
  also have "\<dots> \<le> length idxs" by (rule card_length)
  finally show ?thesis by (simp only: length_filter_conv_card)
qed

lemma select_indices_ok:
  fixes k :: int
  assumes "1 \<le> k"
  shows "\<exists>idxs g1. (if int n \<le> k then Inr ([0..<n], g) else sample [0..<n] k g) = Inr (idxs, g1)
           \<and> length idxs = min n (nat k) \<and> (\<forall>i \<in> set idxs. i < n)"
proof (cases "int n \<le> k")
  case True
  then have "min n (nat k) = n" by linarith
  then show ?thesis using True by simp
next
  case False
  then have kn: "nat k \<le> length [0..<n]" by simp
  have s: "sample [0..<n] k g = Inr (sample_pool [0..<n] (nat k) g)"
    using False assms by (simp add: sample_def)
  have "set (fst (sample_pool [0..<n] (nat k) g)) \<subseteq> set [0..<n]"
    using kn by (rule sample_pool_subset)
  then have "\<forall>i \<in> set (fst (sample_pool [0..<n] (nat k) g)). i < n" by auto
  moreover have "length (fst (sample_pool [0..<n] (nat k) g)) = min n (nat k)"
    using False by (simp add: sample_pool_length)
  ultimately show ?thesis using False s
    by (cases "sample_pool [0..<n] (nat k) g") auto
qed

lemma inject_errors_ok:
  "\<exists>ws' g'. inject_errors s R g =
       Inr ((py_join '' '' ws',
             min (length (py_split s)) (nat (max 1 (py_int (float_mul (float_of_int (int (length (py_split s)))) R))))), g')
     \<and> length ws' = length (py_split s)
     \<and> (\<forall>w \<in> set ws'. good_word w)
     \<and> (\<forall>i < length (py_split s).
           length (strip_trailing_punct (py_split s ! i)) < 3 \<longrightarrow> ws' ! i = py_split s ! i)
     \<and> length (filter (\<lambda>(ow, cw). ow \<noteq> cw) (zip (py_split s) ws'))
           \<le> min (length (py_split s)) (nat (max 1 (py_int (float_mul (float_of_int (int (length (py_split s)))) R))))"
proof -
  let ?ws = "py_split s"
  let ?k = "max 1 (py_int (float_mul (float_of_int (int (length ?ws))) R))"
  have "1 \<le> ?k" by simp
  from select_indices_ok [OF this, of "length ?ws" g]
  obtain idxs g1 where sel: "(if int (length ?ws) \<le> ?k then Inr ([0..<length ?ws], g)
                              else sample [0..<length ?ws] ?k g) = Inr (idxs, g1)"
    and len: "length idxs = min (length ?ws) (nat ?k)"
    and rng: "\<forall>i \<in> set idxs. i < length ?ws"
    by blast
  from apply_errors_ok [OF py_split_good rng, of g1]
  obtain ws' g' where app: "apply_errors ?ws idxs g1 = Inr (ws', g')"
    and len': "length ws' = length ?ws"
    and good': "\<forall>w \<in> set ws'. good_word w"
    and keep: "\<forall>i < length ?ws. i \<notin> set idxs \<longrightarrow> ws' ! i = ?ws ! i"
    and short: "\<forall>i < length ?ws. length (strip_trailing_punct (?ws ! i)) < 3 \<longrightarrow> ws' ! i = ?ws ! i"
    by blast
  have "length (filter (\<lambda>(ow, cw). ow \<noteq> cw) (zip ?ws ws')) \<le> length idxs"
    using len' keep by (rule diff_count_le)
  moreover have "inject_errors s R g = Inr ((py_join '' '' ws', length idxs), g')"
    unfolding inject_errors_def Let_def using sel app by simp
  ultimately show ?thesis using len len' good' short by auto
qed

lemma split_fox:
  "py_split ''The quick brown fox jumps over the lazy dog near the forest'' =
     [''The'', ''quick'', ''brown'', ''fox'', ''jumps'', ''over'', ''the'', ''lazy'', ''dog'',
      ''near'', ''the'', ''forest'']"
  by (simp add: py_split_def is_space_def whitespace_def)

lemma differing_positions:
  assumes "length xs = length ys"
  shows "length (filter (\<lambda>(ow, cw). ow \<noteq> cw) (zip xs ys))
           = length (filter (\<lambda>i. xs ! i \<noteq> ys ! i) [0..<length xs])"
proof -
  have "{i. i < length (zip xs ys) \<and> (\<lambda>(ow, cw). ow \<noteq> cw) (zip xs ys ! i)}
          = {i. i < length xs \<and> xs ! i \<noteq> ys ! i}"
    using assms by auto
  moreover have "{i. i < length [0..<length xs] \<and> xs ! ([0..<length xs] ! i) \<noteq> ys ! ([0..<length xs] ! i)}
          = {i. i < length xs \<and> xs ! i \<noteq> ys ! i}"
    by auto
  ultimately show ?thesis by (simp only: length_filter_conv_card)
qed

lemma float_round_3: "float_round 3 = 3"
  using float_round_int_exact [of 3] by simp

lemma float_round_4: "float_round 4 = 4"
  using float_round_int_exact [of 4] by simp

lemma product_12_quarter: "float_mul (float_of_int 12) (1 / 4) = 3"
  by (simp add: float_of_int_exact float_mul_def float_round_3)

lemma product_4_one: "float_mul (float_of_int 4) 1 = 4"
  by (simp add: float_of_int_exact float_mul_def float_round_4)

lemma product_3_one: "float_mul (float_of_int 3) 1 = 3"
  by (simp add: float_of_int_exact float_mul_def float_round_3)

lemma product_5_double_0_6: "float_mul (float_of_int 5) double_0_6 = 3"
proof -
  have "float_round (5 * double_0_6) = 3"
    unfolding double_0_6_def
    by (subst float_round_in_binade [of 1]) (simp_all add: pow2_def round_half_even_def)
  then show ?thesis by (simp add: float_of_int_exact float_mul_def)
qed

lemma exact_5_double_0_6: "\<lfloor>5 * double_0_6\<rfloor> = 2"
  by (simp add: double_0_6_def floor_eq_iff)

lemma split_five: "py_split ''one two three four five'' = [''one'', ''two'', ''three'', ''four'', ''five'']"
  by (simp add: py_split_def is_space_def whitespace_def)

lemma sample_five:
  "sample_pool [0, Suc 0, Suc (Suc 0), Suc (Suc (Suc 0)), Suc (Suc (Suc (Suc 0)))] 3 counting_rng
     = ([3, 2, 4], (fst counting_rng, 3))"
proof -
  have "sample_pool [0, Suc 0, Suc (Suc 0), Suc (Suc (Suc 0)), Suc (Suc (Suc (Suc 0)))]
          (Suc (Suc (Suc 0))) counting_rng
          = ([3, 2, 4], (fst counting_rng, 3))"
    by (simp add: randbelow_def counting_rng_def Let_def)
  moreover have "(3::nat) = Suc (Suc (Suc 0))" by simp
  ultimately show ?thesis by metis
qed

lemma corrupt_five:
  "apply_errors [''one'', ''two'', ''three'', ''four'', ''five''] [3, 2, 4] (fst counting_rng, 3)
     = Inr ([''one'', ''two'', ''thraee'', ''fuor'', ''five''], (fst counting_rng, 11))"
  by (simp add: corrupt_word_def randbelow_def counting_rng_def choice_def swap_characters_def
     delete_character_def insert_character_def replace_character_def randint_def
     punctuation_def lowercase_def Let_def)

lemma inject_five:
  "inject_errors ''one two three four five'' double_0_6 counting_rng
     = Inr ((''one two thraee fuor five'', 3), (fst counting_rng, 11))"
  by (simp add: inject_errors_def split_five product_5_double_0_6 py_int_def
     sample_def sample_five corrupt_five Let_def del: apply_errors.simps)

lemma max_one_py_int: "max 1 (py_int x) = max 1 \<lfloor>x\<rfloor>"
proof (cases "0 \<le> x")
  case True
  then show ?thesis by (simp add: py_int_def)
next
  case False
  then have "\<lceil>x\<rceil> \<le> 0" "\<lfloor>x\<rfloor> \<le> 0" by (simp_all add: ceiling_le_iff floor_le_iff)
  then show ?thesis using False by (simp add: py_int_def)
qed

lemma float_round_0_6: "float_round (6 / 10) = double_0_6"
  by (subst float_round_in_binade [of "- 1"])
     (simp_all add: pow2_def round_half_even_def double_0_6_def)

lemma float_round_0_58: "float_round (58 / 100) = double_0_58"
  by (subst float_round_in_binade [of "- 1"])
     (simp_all add: pow2_def round_half_even_def double_0_58_def)

lemma product_50_double_0_58:
  "float_mul (float_of_int 50) double_0_58 = 8162774324609023 / 281474976710656"
proof -
  have "float_round (50 * double_0_58) = 8162774324609023 / 281474976710656"
    unfolding double_0_58_def
    by (subst float_round_in_binade [of 4]) (simp_all add: pow2_def round_half_even_def)
  then show ?thesis by (simp add: float_of_int_exact float_mul_def)
qed

lemma split_fifty: "py_split fifty_words = replicate 50 ''word''"
  unfolding fifty_words_def
  by (rule split_join) (simp add: good_word_def is_space_def whitespace_def)

lemma inject_fifty:
  "\<not> isl (inject_errors fifty_words double_0_58 counting_rng)
   \<and> snd (fst (projr (inject_errors fifty_words double_0_58 counting_rng))) = 28"
proof -
  have "py_int (8162774324609023 / 281474976710656) = 28"
    by (simp add: py_int_def floor_eq_iff)
  then show ?thesis
    using inject_errors_ok [of fifty_words double_0_58 counting_rng]
    by (auto simp: split_fifty product_50_double_0_58)
qed

section \<open>Generating test cases\<close>

lemma split_go: "py_split ''go to it'' = [''go'', ''to'', ''it'']"
  by (simp add: py_split_def is_space_def whitespace_def)

lemma inject_go: "inject_errors ''go to it'' 1 g = Inr ((''go to it'', 3), g)"
  by (simp add: inject_errors_def split_go product_3_one py_int_def upt_rec corrupt_word_def)

lemma rate_go: "calculate_actual_error_rate ''go to it'' ''go to it'' = 0"
  by (simp add: calculate_actual_error_rate_def split_go)

lemma gen_go:
  "generate_test_cases short_words_generator [1] counting_rng
     = Inr ([short_words_case], counting_rng)"
  by (simp add: generate_test_cases_def short_words_generator_def short_words_case_def
        inject_go rate_go split_go)

lemma load_go:
  "new_TestCaseGenerator (no_files(''sentences.txt'' := Text ''go to it'')) ''sentences.txt'' 42
     = Inr short_words_generator"
  by (simp add: new_TestCaseGenerator_def load_base_sentences_def file_lines_def py_strip_def
        is_space_def whitespace_def short_words_generator_def)

lemma load_lines_unusable:
  "\<forall>l \<in> set ls. py_strip l = [] \<or> take 1 (py_strip l) = ''#'' \<Longrightarrow> load_lines ls = Inr []"
  by (induction ls) (auto simp: Let_def)

section \<open>Retrying a stage\<close>

lemma call_attempts_calls_le:
  "calls (snd (call_attempts p svc name sp inp as w)) \<le> calls w + length as"
proof (induction as arbitrary: w)
  case Nil
  then show ?case by simp
next
  case (Cons attempt rest)
  let ?w2 = "w\<lparr>calls := Suc (calls w), sleeps := sleeps w @ [2 ^ attempt]\<rparr>"
  have "calls (snd (call_attempts p svc name sp inp rest ?w2)) \<le> calls ?w2 + length rest"
    by (rule Cons.IH)
  then show ?case by (auto simp: Let_def split: sum.splits)
qed

lemma skip_failures:
  assumes "\<forall>i < m. isl (try_request p svc sp inp (calls w + i))"
    and "int (a + m) \<le> max_retries p - 1"
  shows "call_attempts p svc name sp inp ([a..<a + m] @ rest) w
           = call_attempts p svc name sp inp rest
               (w\<lparr>calls := calls w + m,
                  sleeps := sleeps w @ map (\<lambda>x. 2 ^ x) [a..<a + m]\<rparr>)"
  using assms
proof (induction m arbitrary: a w)
  case 0
  then show ?case by simp
next
  case (Suc m)
  let ?w1 = "w\<lparr>calls := Suc (calls w), sleeps := sleeps w @ [2 ^ a]\<rparr>"
  have up: "[a..<a + Suc m] = a # [Suc a..<Suc a + m]" by (simp add: upt_rec)
  have "isl (try_request p svc sp inp (calls w + 0))" using Suc.prems(1) by blast
  then obtain e where e: "try_request p svc sp inp (calls w) = Inl e"
    by (cases "try_request p svc sp inp (calls w)") auto
  have notlast: "int a \<noteq> max_retries p - 1" using Suc.prems(2) by simp
  have step: "call_attempts p svc name sp inp ([a..<a + Suc m] @ rest) w
                = call_attempts p svc name sp inp ([Suc a..<Suc a + m] @ rest) ?w1"
    unfolding up using e notlast by (simp add: Let_def)
  have "\<forall>i < m. isl (try_request p svc sp inp (calls ?w1 + i))"
  proof (intro allI impI)
    fix i assume "i < m"
    then have "Suc i < Suc m" by simp
    with Suc.prems(1) have "isl (try_request p svc sp inp (calls w + Suc i))" by blast
    then show "isl (try_request p svc sp inp (calls ?w1 + i))" by simp
  qed
  moreover have "int (Suc a + m) \<le> max_retries p - 1" using Suc.prems(2) by simp
  ultimately have "call_attempts p svc name sp inp ([Suc a..<Suc a + m] @ rest) ?w1
      = call_attempts p svc name sp inp rest
          (?w1\<lparr>calls := calls ?w1 + m,
                sleeps := sleeps ?w1 @ map (\<lambda>x. 2 ^ x) [Suc a..<Suc a + m]\<rparr>)"
    by (rule Suc.IH)
  then show ?case using step by (simp add: upt_rec [of a])
qed

lemma call_agent_exhausted:
  assumes "1 \<le> max_retries p"
    and "\<forall>i < nat (max_retries p). isl (try_request p svc (system_prompt_of p name) inp (calls w + i))"
  shows "\<exists>e. try_request p svc (system_prompt_of p name) inp (calls w + nat (max_retries p) - 1) = Inl e
           \<and> call_agent p svc name inp w =
               (Inl ((''Agent '' @ name @ '' failed after '' @ str_int (max_retries p)
                                @ '' attempts: '' @ e)),
                w\<lparr>calls := calls w + nat (max_retries p),
                   sleeps := sleeps w @ map (\<lambda>a. 2 ^ a) [0..<nat (max_retries p) - 1]\<rparr>)"
proof -
  let ?n = "nat (max_retries p)"
  let ?sp = "system_prompt_of p name"
  obtain m where m: "?n = Suc m" using assms(1) by (cases ?n) auto
  have upt: "[0..<?n] = [0..<0 + m] @ [m]" using m by simp
  let ?w' = "w\<lparr>calls := calls w + m, sleeps := sleeps w @ map (\<lambda>x. 2 ^ x) [0..<0 + m]\<rparr>"
  have "\<forall>i < m. isl (try_request p svc ?sp inp (calls w + i))" using assms(2) m by simp
  moreover have "int (0 + m) \<le> max_retries p - 1" using m by linarith
  ultimately have skip: "call_attempts p svc name ?sp inp ([0..<0 + m] @ [m]) w
      = call_attempts p svc name ?sp inp [m] ?w'"
    by (rule skip_failures)
  have "isl (try_request p svc ?sp inp (calls w + m))" using assms(2) m by simp
  then obtain e where e: "try_request p svc ?sp inp (calls w + m) = Inl e"
    by (cases "try_request p svc ?sp inp (calls w + m)") auto
  have last: "int m = max_retries p - 1" using m by linarith
  have "call_attempts p svc name ?sp inp [m] ?w'
          = (Inl ((''Agent '' @ name @ '' failed after '' @ str_int (max_retries p)
                                @ '' attempts: '' @ e)),
             w\<lparr>calls := calls w + ?n, sleeps := sleeps w @ map (\<lambda>a. 2 ^ a) [0..<?n - 1]\<rparr>)"
    using e last m by (simp add: Let_def)
  then show ?thesis using skip upt e m by (simp add: call_agent_def)
qed

lemma call_agent_succeeds:
  assumes "k < nat (max_retries p)"
    and "\<forall>i < k. isl (try_request p svc (system_prompt_of p name) inp (calls w + i))"
    and "try_request p svc (system_prompt_of p name) inp (calls w + k) = Inr t"
  shows "call_agent p svc name inp w =
           (Inr t, w\<lparr>calls := calls w + k + 1,
                      sleeps := sleeps w @ map (\<lambda>a. 2 ^ a) [0..<k] @ [delay p]\<rparr>)"
proof -
  let ?n = "nat (max_retries p)"
  let ?sp = "system_prompt_of p name"
  have "[0..<k + (?n - k)] = [0..<k] @ [k..<k + (?n - k)]"
    by (rule upt_add_eq_append) simp
  moreover have "[k..<?n] = k # [Suc k..<?n]" using assms(1) by (rule upt_conv_Cons)
  ultimately have upt: "[0..<?n] = [0..<0 + k] @ (k # [Suc k..<?n])"
    using assms(1) by simp
  let ?w' = "w\<lparr>calls := calls w + k, sleeps := sleeps w @ map (\<lambda>x. 2 ^ x) [0..<0 + k]\<rparr>"
  have "int (0 + k) \<le> max_retries p - 1" using assms(1) by linarith
  with assms(2) have skip: "call_attempts p svc name ?sp inp ([0..<0 + k] @ (k # [Suc k..<?n])) w
      = call_attempts p svc name ?sp inp (k # [Suc k..<?n]) ?w'"
    by (rule skip_failures)
  have "call_attempts p svc name ?sp inp (k # [Suc k..<?n]) ?w'
          = (Inr t, w\<lparr>calls := calls w + k + 1,
                        sleeps := sleeps w @ map (\<lambda>a. 2 ^ a) [0..<k] @ [delay p]\<rparr>)"
    using assms(3) by (simp add: Let_def)
  then show ?thesis using skip upt by (simp add: call_agent_def)
qed

lemma backoff_increasing: "sorted_wrt (<) (map (\<lambda>a. (2::real) ^ a) [0..<m])"
proof -
  have "sorted_wrt (\<lambda>x y. (2::real) ^ x < 2 ^ y) [0..<m]"
    by (rule sorted_wrt_mono_rel [of _ "(<)"]) simp_all
  then show ?thesis by (simp add: sorted_wrt_map)
qed

lemma str_int_3: "str_int 3 = ''3''"
  by (simp add: str_int_def str_nat.simps [of 3])

lemma call_agent_failing:
  "call_agent example_pipeline failing_service ''agent1'' ''Test text'' initial_world
     = (Inl ''Agent agent1 failed after 3 attempts: Persistent API Error'',
        \<lparr>calls = 3, sleeps = [1, 2]\<rparr>)"
  by (simp add: call_agent_def example_pipeline_def failing_service_def initial_world_def
        try_request_def Let_def upt_rec str_int_3)

section \<open>Processing a batch\<close>

lemma process_batch_length: "length (fst (process_batch p svc tcs w)) = length tcs"
  by (induction tcs arbitrary: w) (simp_all add: split_def Let_def)

lemma process_batch_nth:
  "i < length tcs \<Longrightarrow>
     fst (process_batch p svc tcs w) ! i
       = fst (batch_item p svc (tcs ! i) (snd (process_batch p svc (take i tcs) w)))"
proof (induction tcs arbitrary: i w)
  case Nil
  then show ?case by simp
next
  case (Cons tc rest)
  show ?case
  proof (cases i)
    case 0
    then show ?thesis by (simp add: split_def Let_def)
  next
    case (Suc j)
    then have "j < length rest" using Cons.prems by simp
    then have "fst (process_batch p svc rest (snd (batch_item p svc tc w))) ! j
       = fst (batch_item p svc (rest ! j)
               (snd (process_batch p svc (take j rest) (snd (batch_item p svc tc w)))))"
      by (rule Cons.IH)
    then show ?thesis using Suc by (simp add: split_def Let_def)
  qed
qed

lemma process_success_record:
  assumes "process p svc english_input tid w = (Inr r, w')"
  shows "test_id r = tid \<and> success (metadata r) \<and> error r = None"
  using assms
  by (auto simp: process_def split: prod.splits sum.splits)

lemma batch_item_record:
  "test_id (fst (batch_item p svc tc w)) = tc_id tc
   \<and> (case fst (process p svc (corrupted tc) (tc_id tc) w) of
        Inl e \<Rightarrow> \<not> success (metadata (fst (batch_item p svc tc w)))
                  \<and> error (fst (batch_item p svc tc w)) = Some e
      | Inr res \<Rightarrow> success (metadata (fst (batch_item p svc tc w)))
                    \<and> error (fst (batch_item p svc tc w)) = None
                    \<and> final (fst (batch_item p svc tc w)) = final res)"
proof (cases "process p svc (corrupted tc) (tc_id tc) w")
  case (Pair res w')
  show ?thesis
  proof (cases res)
    case (Inl e)
    then show ?thesis using Pair by (simp add: batch_item_def)
  next
    case (Inr r)
    then show ?thesis using Pair process_success_record [of p svc "corrupted tc" "tc_id tc" w r w']
      by (simp add: batch_item_def)
  qed
qed

lemma call_agent_selective_fail:
  "call_agent example_pipeline selective_service name ''Txt two'' w
     = (Inl (''Agent '' @ name @ '' failed after 3 attempts: API Error''),
        w\<lparr>calls := calls w + 3, sleeps := sleeps w @ [1, 2]\<rparr>)"
  by (simp add: call_agent_def example_pipeline_def selective_service_def
        try_request_def Let_def upt_rec str_int_3)

lemma call_agent_selective_ok:
  "inp \<noteq> ''Txt two'' \<Longrightarrow>
   call_agent example_pipeline selective_service name inp w
     = (Inr ''Translation'', w\<lparr>calls := calls w + 1, sleeps := sleeps w @ [1]\<rparr>)"
  by (simp add: call_agent_def example_pipeline_def selective_service_def
        try_request_def Let_def upt_rec py_strip_def is_space_def whitespace_def)

lemma example_batch_flags:
  "map (\<lambda>r. success (metadata r))
       (fst (process_batch example_pipeline selective_service example_batch initial_world))
     = [True, False, True]"
  by (simp add: example_batch_def batch_item_def process_def call_agent_selective_fail
        call_agent_selective_ok split_def Let_def)

section \<open>Distances of embeddings\<close>

lemma get_embedding_fst: "fst (get_embedding a t) = embedding_of a t"
  by (simp add: get_embedding_def embedding_of_def Let_def split: option.splits)

lemma get_embedding_snd: "embedding_of (snd (get_embedding a t)) t' = embedding_of a t'"
  by (simp add: get_embedding_def embedding_of_def Let_def split: option.splits)









lemma euclidean_by_embeddings:
  "fst (calculate_euclidean_distance fl a t1 t2) =
     (case np_sub fl (embedding_of a t1) (embedding_of a t2) of
        Inl e \<Rightarrow> Inl e
      | Inr diff \<Rightarrow> Inr (Float (np_norm fl diff)))"
  using get_embedding_fst [of a t1] get_embedding_fst [of "snd (get_embedding a t1)" t2]
    get_embedding_snd [of a t1 t2]
  by (simp add: calculate_euclidean_distance_def split_def Let_def split: sum.splits)







lemma float_round_0: "float_round 0 = 0"
  by (simp add: float_round_def)


lemma embedding_of_example:
  "embedding_of example_analyzer t = (if t = [] then [0, 0] else if t = ''a'' then [1, 0] else [0, 1])"
  by (simp add: embedding_of_def example_analyzer_def)


lemma euclidean_example:
  "fst (calculate_distance float_round float_round example_analyzer ''a'' ''a'' ''euclidean'')
     = Inr (Float 0)"
  by (simp add: calculate_distance_def euclidean_by_embeddings embedding_of_example np_sub_def
        dot_sum_def np_norm_def float_round_0)


section \<open>Claims on the error injector\<close>

text \<open>C1, as the code has it: for a text of \<open>N \<ge> 1\<close> words and an error rate \<open>R\<close> in
  \<open>[0, 1]\<close>, \<open>inject_errors\<close> returns and reports exactly \<open>max(1, floor(p))\<close> corrupted
  words, clamped to \<open>N\<close>, where \<open>p\<close> is the float product \<open>N * R\<close> that the program computes:
  the exact product rounded to the nearest binary64 number. With the exact product in its
  place the count is another one for some rates. For 5 words at the rate 0.6 the float
  product is 3 and the count 3, while the exact product of 5 and the float 0.6 is below 3
  and its floor 2. For 50 words at the rate 0.58 the float product is below 29 and the count
  28, while 50 times the decimal 0.58 is 29.\<close>

theorem inject_errors_count:
  assumes "1 \<le> length (py_split s)" "0 \<le> R" "R \<le> 1"
  shows "\<exists>corrupted_text g'. inject_errors s R g =
           Inr ((corrupted_text,
                 nat (min (int (length (py_split s)))
                          (max 1 \<lfloor>float_mul (float_of_int (int (length (py_split s)))) R\<rfloor>))),
                g')"
proof -
  let ?p = "float_mul (float_of_int (int (length (py_split s)))) R"
  have "max 1 (py_int ?p) = max 1 \<lfloor>?p\<rfloor>"
    by (rule max_one_py_int)
  moreover have "nat (min (int (length (py_split s))) (max 1 \<lfloor>?p\<rfloor>))
      = min (length (py_split s)) (nat (max 1 \<lfloor>?p\<rfloor>))"
    by linarith
  ultimately show ?thesis using inject_errors_ok [of s R g] by auto
qed

theorem inject_errors_count_witness:
  "1 \<le> length (py_split ''The quick brown fox jumps over the lazy dog near the forest'')
   \<and> (0::real) \<le> 1 / 4 \<and> (1::real) / 4 \<le> 1
   \<and> (\<exists>corrupted_text g'.
        inject_errors ''The quick brown fox jumps over the lazy dog near the forest'' (1 / 4)
          counting_rng = Inr ((corrupted_text, 3), g'))"
  using inject_errors_count
    [of "''The quick brown fox jumps over the lazy dog near the forest''" "1 / 4" counting_rng]
  by (simp add: split_fox product_12_quarter)

theorem inject_errors_count_counterexample:
  "inject_errors ''one two three four five'' double_0_6 counting_rng
     = Inr ((''one two thraee fuor five'', 3), (fst counting_rng, 11))
   \<and> length (py_split ''one two three four five'') = 5
   \<and> float_round (6 / 10) = double_0_6 \<and> 0 \<le> double_0_6 \<and> double_0_6 \<le> 1
   \<and> nat (min 5 (max 1 \<lfloor>5 * double_0_6\<rfloor>)) = 2
   \<and> \<not> isl (inject_errors fifty_words double_0_58 counting_rng)
   \<and> snd (fst (projr (inject_errors fifty_words double_0_58 counting_rng))) = 28
   \<and> length (py_split fifty_words) = 50
   \<and> float_round (58 / 100) = double_0_58 \<and> 0 \<le> double_0_58 \<and> double_0_58 \<le> 1
   \<and> nat (min 50 (max 1 \<lfloor>50 * (58 / 100 :: real)\<rfloor>)) = 29"
proof -
  have five: "inject_errors ''one two three four five'' double_0_6 counting_rng
       = Inr ((''one two thraee fuor five'', 3), (fst counting_rng, 11))
     \<and> length (py_split ''one two three four five'') = 5
     \<and> float_round (6 / 10) = double_0_6
     \<and> nat (min 5 (max 1 \<lfloor>5 * double_0_6\<rfloor>)) = 2"
    using float_round_0_6 by (simp add: inject_five split_five exact_5_double_0_6)
  have fifty: "\<not> isl (inject_errors fifty_words double_0_58 counting_rng)
     \<and> snd (fst (projr (inject_errors fifty_words double_0_58 counting_rng))) = 28
     \<and> length (py_split fifty_words) = 50
     \<and> float_round (58 / 100) = double_0_58"
    using float_round_0_58 by (simp add: inject_fifty split_fifty)
  have rates: "0 \<le> double_0_6 \<and> double_0_6 \<le> 1 \<and> 0 \<le> double_0_58 \<and> double_0_58 \<le> 1"
    by (simp add: double_0_6_def double_0_58_def)
  have exact: "nat (min 50 (max 1 \<lfloor>50 * (58 / 100 :: real)\<rfloor>)) = 29"
    by simp
  show ?thesis using five fifty rates exact by simp
qed

text \<open>C2: for a text with at least one word and an error rate in \<open>[0, 1]\<close>, \<open>inject_errors\<close>
  returns a text with as many words as the input.\<close>

theorem inject_errors_word_count:
  assumes "py_split s \<noteq> []" "0 \<le> R" "R \<le> 1"
  shows "\<exists>corrupted_text n g'. inject_errors s R g = Inr ((corrupted_text, n), g')
           \<and> length (py_split corrupted_text) = length (py_split s)"
proof -
  from inject_errors_ok [of s R g]
  obtain ws' n g' where r: "inject_errors s R g = Inr ((py_join '' '' ws', n), g')"
    and len: "length ws' = length (py_split s)"
    and good: "\<forall>w \<in> set ws'. good_word w"
    by blast
  have "py_split (py_join '' '' ws') = ws'" using good by (rule split_join)
  then show ?thesis using r len by simp
qed

theorem inject_errors_word_count_witness:
  "py_split ''The quick brown fox jumps over the lazy dog near the forest'' \<noteq> []
   \<and> (0::real) \<le> 1 / 4 \<and> (1::real) / 4 \<le> 1
   \<and> (\<exists>corrupted_text n g'.
        inject_errors ''The quick brown fox jumps over the lazy dog near the forest'' (1 / 4)
          counting_rng = Inr ((corrupted_text, n), g')
        \<and> length (py_split corrupted_text)
            = length (py_split ''The quick brown fox jumps over the lazy dog near the forest''))"
  using inject_errors_word_count
    [of "''The quick brown fox jumps over the lazy dog near the forest''" "1 / 4" counting_rng]
  by (simp add: split_fox)

text \<open>C8: a word whose length without its single trailing punctuation character is under 3
  stands unchanged at its position in the text that \<open>inject_errors\<close> returns, whatever indices
  were selected.\<close>

theorem inject_errors_short_words:
  "\<exists>corrupted_text n g'. inject_errors s R g = Inr ((corrupted_text, n), g')
     \<and> (\<forall>i < length (py_split s).
           length (strip_trailing_punct (py_split s ! i)) < 3
           \<longrightarrow> py_split corrupted_text ! i = py_split s ! i)"
proof -
  from inject_errors_ok [of s R g]
  obtain ws' n g' where r: "inject_errors s R g = Inr ((py_join '' '' ws', n), g')"
    and good: "\<forall>w \<in> set ws'. good_word w"
    and short: "\<forall>i < length (py_split s).
           length (strip_trailing_punct (py_split s ! i)) < 3 \<longrightarrow> ws' ! i = py_split s ! i"
    by blast
  have "py_split (py_join '' '' ws') = ws'" using good by (rule split_join)
  then show ?thesis using r short by simp
qed

theorem inject_errors_short_words_witness:
  "(2::nat) < length (py_split ''Go to it, now'')
   \<and> length (strip_trailing_punct (py_split ''Go to it, now'' ! 2)) < 3
   \<and> (\<exists>corrupted_text g'.
        inject_errors ''Go to it, now'' 1 counting_rng = Inr ((corrupted_text, 4), g')
        \<and> py_split corrupted_text ! 2 = ''it,'')"
proof -
  have ws: "py_split ''Go to it, now'' = [''Go'', ''to'', ''it,'', ''now'']"
    by (simp add: py_split_def is_space_def whitespace_def)
  have short: "length (strip_trailing_punct ''it,'') < 3"
    by (simp add: strip_trailing_punct_def punctuation_def)
  from inject_errors_short_words [of "''Go to it, now''" 1 counting_rng]
  obtain corrupted_text n g' where
    r: "inject_errors ''Go to it, now'' 1 counting_rng = Inr ((corrupted_text, n), g')"
    and keep: "\<forall>i < length (py_split ''Go to it, now'').
           length (strip_trailing_punct (py_split ''Go to it, now'' ! i)) < 3
           \<longrightarrow> py_split corrupted_text ! i = py_split ''Go to it, now'' ! i"
    by blast
  from keep have "py_split corrupted_text ! 2 = ''it,''" using ws short by simp
  moreover have "n = 4" using r inject_errors_ok [of "''Go to it, now''" 1 counting_rng] ws
    by (auto simp: py_int_def product_4_one)
  ultimately show ?thesis using r ws short by simp
qed

text \<open>C9: on texts with equally many words \<open>calculate_actual_error_rate\<close> is the fraction of
  word positions that differ (0 for no words), so it is 0 on a text and itself; on texts with
  different word counts it is the smaller count divided by the larger.\<close>

theorem calculate_actual_error_rate_cases:
  "(length (py_split a) = length (py_split b) \<longrightarrow>
      calculate_actual_error_rate a b =
        (if py_split a = [] then 0
         else real (length (filter (\<lambda>i. py_split a ! i \<noteq> py_split b ! i)
                                   [0..<length (py_split a)]))
              / real (length (py_split a))))
   \<and> calculate_actual_error_rate x x = 0
   \<and> (length (py_split a) \<noteq> length (py_split b) \<longrightarrow>
        calculate_actual_error_rate a b =
          real (min (length (py_split a)) (length (py_split b)))
          / real (max (length (py_split a)) (length (py_split b))))"
proof (intro conjI impI)
  assume "length (py_split a) = length (py_split b)"
  then show "calculate_actual_error_rate a b =
        (if py_split a = [] then 0
         else real (length (filter (\<lambda>i. py_split a ! i \<noteq> py_split b ! i)
                                   [0..<length (py_split a)]))
              / real (length (py_split a)))"
    by (simp add: calculate_actual_error_rate_def Let_def differing_positions)
next
  have "length (filter (\<lambda>(ow, cw). ow \<noteq> cw) (zip (py_split x) (py_split x))) = 0"
    by (simp add: differing_positions)
  then show "calculate_actual_error_rate x x = 0"
    by (simp add: calculate_actual_error_rate_def Let_def)
next
  assume "length (py_split a) \<noteq> length (py_split b)"
  then show "calculate_actual_error_rate a b =
          real (min (length (py_split a)) (length (py_split b)))
          / real (max (length (py_split a)) (length (py_split b)))"
    by (simp add: calculate_actual_error_rate_def Let_def)
qed

theorem calculate_actual_error_rate_cases_witness:
  "length (py_split ''a b c'') = length (py_split ''a x c'')
   \<and> calculate_actual_error_rate ''a b c'' ''a x c'' = 1 / 3
   \<and> length (py_split ''a b c'') \<noteq> length (py_split ''a x'')
   \<and> calculate_actual_error_rate ''a b c'' ''a x'' = 2 / 3"
proof -
  have abc: "py_split ''a b c'' = [''a'', ''b'', ''c'']"
    and axc: "py_split ''a x c'' = [''a'', ''x'', ''c'']"
    and ax: "py_split ''a x'' = [''a'', ''x'']"
    by (simp_all add: py_split_def is_space_def whitespace_def)
  have "[0..<3] = [0, 1, 2]" by (simp add: upt_rec)
  then show ?thesis
    using calculate_actual_error_rate_cases [of "''a b c''" "''a x c''" "[]"]
      calculate_actual_error_rate_cases [of "''a b c''" "''a x''" "[]"]
    by (simp add: abc axc ax)
qed

section \<open>Claims on the test case generator\<close>

text \<open>C3: in a test case of \<open>generate_test_cases\<close> the stored \<open>num_errors\<close> should equal
  \<open>round(actual_error_rate * word_count)\<close>. The code stores the number of selected words,
  also when a selected word is too short to be altered: from the sentence \<open>go to it\<close> at
  rate 1 it makes a test case with \<open>num_errors = 3\<close>, an unchanged text and
  \<open>actual_error_rate = 0\<close>, so the rounded product is 0, and \<open>num_errors / word_count\<close> is not
  within 0.01 of \<open>actual_error_rate\<close>.\<close>

theorem generate_test_cases_num_errors_mismatch:
  "new_TestCaseGenerator (no_files(''sentences.txt'' := Text ''go to it'')) ''sentences.txt'' 42
     = Inr short_words_generator
   \<and> generate_test_cases short_words_generator [1] counting_rng
     = Inr ([short_words_case], counting_rng)
   \<and> corrupted short_words_case = original short_words_case
   \<and> int (num_errors short_words_case) = 3
   \<and> round_half_even (actual_error_rate short_words_case * real (word_count short_words_case)) = 0
   \<and> \<not> \<bar>real (num_errors short_words_case) / real (word_count short_words_case)
           - actual_error_rate short_words_case\<bar> < 1 / 100"
  by (simp add: load_go gen_go) (simp add: short_words_case_def round_half_even_def)

text \<open>C7, as the code has it: constructing the generator fails with FileNotFoundError when
  the file of base sentences is missing. A file without a usable sentence, that is an empty
  one or one of blank lines and comment lines only, does not make it fail: the generator is
  constructed with an empty list of sentences.\<close>

theorem new_TestCaseGenerator_cases:
  "(fs path = NoFile \<longrightarrow> new_TestCaseGenerator fs path sd = Inl FileNotFoundError)
   \<and> (\<forall>content. fs path = Text content
          \<and> (\<forall>l \<in> set (file_lines content). py_strip l = [] \<or> take 1 (py_strip l) = ''#'')
        \<longrightarrow> new_TestCaseGenerator fs path sd = Inr \<lparr>base_sentences = [], seed = sd\<rparr>)"
proof (intro conjI impI allI)
  assume "fs path = NoFile"
  then show "new_TestCaseGenerator fs path sd = Inl FileNotFoundError"
    by (simp add: new_TestCaseGenerator_def load_base_sentences_def)
next
  fix content
  assume "fs path = Text content
          \<and> (\<forall>l \<in> set (file_lines content). py_strip l = [] \<or> take 1 (py_strip l) = ''#'')"
  then show "new_TestCaseGenerator fs path sd = Inr \<lparr>base_sentences = [], seed = sd\<rparr>"
    using load_lines_unusable [of "file_lines content"]
    by (simp add: new_TestCaseGenerator_def load_base_sentences_def)
qed

theorem new_TestCaseGenerator_cases_witness:
  "no_files ''sentences.txt'' = NoFile
   \<and> new_TestCaseGenerator no_files ''sentences.txt'' 42 = Inl FileNotFoundError
   \<and> (no_files(''notes.txt'' := Text (''# first'' @ [CHR 0x0A, CHR 0x0A] @ ''  # second'')))
        ''notes.txt''
       = Text (''# first'' @ [CHR 0x0A, CHR 0x0A] @ ''  # second'')
   \<and> list_all (\<lambda>l. py_strip l = [] \<or> take 1 (py_strip l) = ''#'')
        (file_lines (''# first'' @ [CHR 0x0A, CHR 0x0A] @ ''  # second''))
   \<and> new_TestCaseGenerator
        (no_files(''notes.txt'' := Text (''# first'' @ [CHR 0x0A, CHR 0x0A] @ ''  # second'')))
        ''notes.txt'' 42
       = Inr \<lparr>base_sentences = [], seed = 42\<rparr>"
proof -
  have lines: "\<forall>l \<in> set (file_lines (''# first'' @ [CHR 0x0A, CHR 0x0A] @ ''  # second'')).
         py_strip l = [] \<or> take 1 (py_strip l) = ''#''"
    by (simp add: file_lines_def py_strip_def is_space_def whitespace_def)
  show ?thesis
    using new_TestCaseGenerator_cases [of no_files "''sentences.txt''" 42]
      new_TestCaseGenerator_cases
        [of "no_files(''notes.txt'' := Text (''# first'' @ [CHR 0x0A, CHR 0x0A] @ ''  # second''))"
            "''notes.txt''" 42]
      lines
    by (simp add: no_files_def list_all_iff)
qed

theorem new_TestCaseGenerator_empty_counterexample:
  "new_TestCaseGenerator (no_files(''empty.txt'' := Text [])) ''empty.txt'' 42
     = Inr \<lparr>base_sentences = [], seed = 42\<rparr>
   \<and> new_TestCaseGenerator (no_files(''comments.txt'' := Text ''# no sentence here''))
        ''comments.txt'' 42
     = Inr \<lparr>base_sentences = [], seed = 42\<rparr>"
  by (simp add: new_TestCaseGenerator_def load_base_sentences_def file_lines_def py_strip_def
        is_space_def whitespace_def)

section \<open>Claims on the translation pipeline\<close>

text \<open>C5: a stage issues at most \<open>max_retries\<close> requests. When every attempt of a budget
  of at least one fails, it has issued \<open>max_retries\<close> requests, slept \<open>2 ^ attempt\<close> after each
  failed attempt but the last (attempts counted from 0) and raises an error that names the
  agent and the number of attempts. When the attempt after \<open>k\<close> failures succeeds, it returns
  that translation after \<open>k + 1\<close> requests with the same backoff sleeps and the rate-limit
  delay. The backoff delays are strictly increasing.\<close>

theorem call_agent_retry:
  "calls (snd (call_agent p svc name inp w)) \<le> calls w + nat (max_retries p)
   \<and> (1 \<le> max_retries p
        \<and> (\<forall>i < nat (max_retries p).
              isl (try_request p svc (system_prompt_of p name) inp (calls w + i)))
      \<longrightarrow> (\<exists>e. try_request p svc (system_prompt_of p name) inp
                    (calls w + nat (max_retries p) - 1) = Inl e
               \<and> call_agent p svc name inp w =
                   (Inl ((''Agent '' @ name @ '' failed after ''
                                    @ str_int (max_retries p) @ '' attempts: '' @ e)),
                    w\<lparr>calls := calls w + nat (max_retries p),
                       sleeps := sleeps w @ map (\<lambda>a. 2 ^ a) [0..<nat (max_retries p) - 1]\<rparr>)))
   \<and> (\<forall>k t. k < nat (max_retries p)
          \<and> (\<forall>i < k. isl (try_request p svc (system_prompt_of p name) inp (calls w + i)))
          \<and> try_request p svc (system_prompt_of p name) inp (calls w + k) = Inr t
        \<longrightarrow> call_agent p svc name inp w =
              (Inr t, w\<lparr>calls := calls w + k + 1,
                         sleeps := sleeps w @ map (\<lambda>a. 2 ^ a) [0..<k] @ [delay p]\<rparr>))
   \<and> sorted_wrt (<) (map (\<lambda>a. (2::real) ^ a) [0..<nat (max_retries p) - 1])"
proof (intro conjI impI allI)
  show "calls (snd (call_agent p svc name inp w)) \<le> calls w + nat (max_retries p)"
    using call_attempts_calls_le [of p svc name "system_prompt_of p name" inp
        "[0..<nat (max_retries p)]" w]
    by (simp add: call_agent_def)
next
  assume "1 \<le> max_retries p
        \<and> (\<forall>i < nat (max_retries p).
              isl (try_request p svc (system_prompt_of p name) inp (calls w + i)))"
  then show "\<exists>e. try_request p svc (system_prompt_of p name) inp
                    (calls w + nat (max_retries p) - 1) = Inl e
               \<and> call_agent p svc name inp w =
                   (Inl ((''Agent '' @ name @ '' failed after ''
                                    @ str_int (max_retries p) @ '' attempts: '' @ e)),
                    w\<lparr>calls := calls w + nat (max_retries p),
                       sleeps := sleeps w @ map (\<lambda>a. 2 ^ a) [0..<nat (max_retries p) - 1]\<rparr>)"
    using call_agent_exhausted [of p svc name inp w] by blast
next
  fix k t
  assume "k < nat (max_retries p)
          \<and> (\<forall>i < k. isl (try_request p svc (system_prompt_of p name) inp (calls w + i)))
          \<and> try_request p svc (system_prompt_of p name) inp (calls w + k) = Inr t"
  then show "call_agent p svc name inp w =
              (Inr t, w\<lparr>calls := calls w + k + 1,
                         sleeps := sleeps w @ map (\<lambda>a. 2 ^ a) [0..<k] @ [delay p]\<rparr>)"
    using call_agent_succeeds [of k p svc name inp w t] by blast
next
  show "sorted_wrt (<) (map (\<lambda>a. (2::real) ^ a) [0..<nat (max_retries p) - 1])"
    by (rule backoff_increasing)
qed

theorem call_agent_retry_witness:
  "1 \<le> max_retries example_pipeline
   \<and> list_all (\<lambda>i. isl (try_request example_pipeline failing_service
                (system_prompt_of example_pipeline ''agent1'') ''Test'' (calls initial_world + i)))
        [0..<nat (max_retries example_pipeline)]
   \<and> call_agent example_pipeline failing_service ''agent1'' ''Test'' initial_world
       = (Inl ''Agent agent1 failed after 3 attempts: Persistent API Error'',
          \<lparr>calls = 3, sleeps = [1, 2]\<rparr>)
   \<and> (2::nat) < nat (max_retries example_pipeline)
   \<and> list_all (\<lambda>i. isl (try_request example_pipeline flaky_service
                (system_prompt_of example_pipeline ''agent1'') ''Test'' (calls initial_world + i)))
        [0..<2]
   \<and> try_request example_pipeline flaky_service
                (system_prompt_of example_pipeline ''agent1'') ''Test'' (calls initial_world + 2)
       = Inr ''Success''
   \<and> call_agent example_pipeline flaky_service ''agent1'' ''Test'' initial_world
       = (Inr ''Success'', \<lparr>calls = 3, sleeps = [1, 2, 1]\<rparr>)"
proof -
  have mr: "max_retries example_pipeline = 3" "delay example_pipeline = 1"
    by (simp_all add: example_pipeline_def)
  have fail: "\<And>i. try_request example_pipeline failing_service
                (system_prompt_of example_pipeline ''agent1'') ''Test'' i
                = Inl ''Persistent API Error''"
    by (simp add: try_request_def failing_service_def)
  have flaky: "\<And>i. try_request example_pipeline flaky_service
                (system_prompt_of example_pipeline ''agent1'') ''Test'' i
                = (if i < 2 then Inl ''API Error'' else Inr ''Success'')"
    by (simp add: try_request_def flaky_service_def mr py_strip_def is_space_def whitespace_def)
  have two: "[0..<2] = [0, 1]" by (simp add: upt_rec)
  have w0: "calls initial_world = 0" "sleeps initial_world = []"
    "initial_world\<lparr>calls := 3, sleeps := [1, 2]\<rparr> = \<lparr>calls = 3, sleeps = [1, 2]\<rparr>"
    "initial_world\<lparr>calls := 3, sleeps := [1, 2, 1]\<rparr> = \<lparr>calls = 3, sleeps = [1, 2, 1]\<rparr>"
    by (simp_all add: initial_world_def)
  from call_agent_retry [of example_pipeline failing_service "''agent1''" "''Test''" initial_world]
  have a: "call_agent example_pipeline failing_service ''agent1'' ''Test'' initial_world
       = (Inl ''Agent agent1 failed after 3 attempts: Persistent API Error'',
          \<lparr>calls = 3, sleeps = [1, 2]\<rparr>)"
    by (simp add: mr fail two w0 str_int_3)
  from call_agent_retry [of example_pipeline flaky_service "''agent1''" "''Test''" initial_world]
  have "2 < nat (max_retries example_pipeline)
          \<and> (\<forall>i < 2. isl (try_request example_pipeline flaky_service
                (system_prompt_of example_pipeline ''agent1'') ''Test'' (calls initial_world + i)))
          \<and> try_request example_pipeline flaky_service
                (system_prompt_of example_pipeline ''agent1'') ''Test'' (calls initial_world + 2)
              = Inr ''Success''
        \<longrightarrow> call_agent example_pipeline flaky_service ''agent1'' ''Test'' initial_world =
              (Inr ''Success'', initial_world\<lparr>calls := calls initial_world + 2 + 1,
                         sleeps := sleeps initial_world @ map (\<lambda>a. 2 ^ a) [0..<2]
                                   @ [delay example_pipeline]\<rparr>)"
    by blast
  then have b: "call_agent example_pipeline flaky_service ''agent1'' ''Test'' initial_world
       = (Inr ''Success'', \<lparr>calls = 3, sleeps = [1, 2, 1]\<rparr>)"
    by (simp add: mr flaky two w0)
  show ?thesis using a b by (simp add: mr fail flaky w0 list_all_iff)
qed

text \<open>C4: \<open>process\<close> has no handler of its own. With a service whose every request raises,
  the first stage exhausts its three attempts and \<open>process\<close> ends with that exception instead
  of a result record.\<close>

theorem process_propagates_failure:
  "process example_pipeline failing_service ''Test text'' 1 initial_world
     = (Inl ''Agent agent1 failed after 3 attempts: Persistent API Error'',
        \<lparr>calls = 3, sleeps = [1, 2]\<rparr>)"
  by (simp add: process_def call_agent_failing)

text \<open>C6: \<open>process_batch\<close> on \<open>N\<close> test cases returns \<open>N\<close> records; the record at position
  \<open>i\<close> carries the id of test case \<open>i\<close>, and it is a failure record with the message of the
  exception when \<open>process\<close> raises on that test case (in the state the items before it left),
  a success record otherwise.\<close>

theorem process_batch_results:
  "length (fst (process_batch p svc tcs w)) = length tcs
   \<and> (\<forall>i < length tcs.
         test_id (fst (process_batch p svc tcs w) ! i) = tc_id (tcs ! i)
         \<and> (case fst (process p svc (corrupted (tcs ! i)) (tc_id (tcs ! i))
                          (snd (process_batch p svc (take i tcs) w))) of
              Inl e \<Rightarrow> \<not> success (metadata (fst (process_batch p svc tcs w) ! i))
                        \<and> error (fst (process_batch p svc tcs w) ! i) = Some e
            | Inr res \<Rightarrow> success (metadata (fst (process_batch p svc tcs w) ! i))
                          \<and> error (fst (process_batch p svc tcs w) ! i) = None
                          \<and> final (fst (process_batch p svc tcs w) ! i) = final res))"
proof (intro conjI allI impI)
  show "length (fst (process_batch p svc tcs w)) = length tcs"
    by (rule process_batch_length)
next
  fix i assume "i < length tcs"
  then have nth: "fst (process_batch p svc tcs w) ! i
       = fst (batch_item p svc (tcs ! i) (snd (process_batch p svc (take i tcs) w)))"
    by (rule process_batch_nth)
  show "test_id (fst (process_batch p svc tcs w) ! i) = tc_id (tcs ! i)"
    unfolding nth using batch_item_record by blast
  show "case fst (process p svc (corrupted (tcs ! i)) (tc_id (tcs ! i))
                          (snd (process_batch p svc (take i tcs) w))) of
              Inl e \<Rightarrow> \<not> success (metadata (fst (process_batch p svc tcs w) ! i))
                        \<and> error (fst (process_batch p svc tcs w) ! i) = Some e
            | Inr res \<Rightarrow> success (metadata (fst (process_batch p svc tcs w) ! i))
                          \<and> error (fst (process_batch p svc tcs w) ! i) = None
                          \<and> final (fst (process_batch p svc tcs w) ! i) = final res"
    unfolding nth using batch_item_record by blast
qed

theorem process_batch_results_witness:
  "(1::nat) < length example_batch
   \<and> length (fst (process_batch example_pipeline selective_service example_batch initial_world)) = 3
   \<and> test_id (fst (process_batch example_pipeline selective_service example_batch initial_world) ! 1)
       = 1
   \<and> isl (fst (process example_pipeline selective_service (corrupted (example_batch ! 1))
                  (tc_id (example_batch ! 1))
                  (snd (process_batch example_pipeline selective_service (take 1 example_batch)
                          initial_world))))
   \<and> \<not> success (metadata
         (fst (process_batch example_pipeline selective_service example_batch initial_world) ! 1))
   \<and> map (\<lambda>r. success (metadata r))
         (fst (process_batch example_pipeline selective_service example_batch initial_world))
       = [True, False, True]"
proof -
  have len: "length example_batch = 3" and nth1: "corrupted (example_batch ! 1) = ''Txt two''"
    "tc_id (example_batch ! 1) = 1"
    by (simp_all add: example_batch_def)
  have fails: "\<And>w. fst (process example_pipeline selective_service ''Txt two'' 1 w)
      = Inl ''Agent agent1 failed after 3 attempts: API Error''"
    by (simp add: process_def call_agent_selective_fail)
  have flags: "map (\<lambda>r. success (metadata r))
         (fst (process_batch example_pipeline selective_service example_batch initial_world))
       = [True, False, True]"
    by (rule example_batch_flags)
  from process_batch_results [of example_pipeline selective_service example_batch initial_world]
  have "length (fst (process_batch example_pipeline selective_service example_batch initial_world)) = 3"
    and "test_id (fst (process_batch example_pipeline selective_service example_batch initial_world) ! 1) = 1
       \<and> \<not> success (metadata
         (fst (process_batch example_pipeline selective_service example_batch initial_world) ! 1))"
    using len nth1 fails by (auto simp: len split: sum.splits)
  then show ?thesis using len nth1 fails flags by simp
qed

section \<open>Claims on the semantic analyzer\<close>




end
